theory Spec2Isabelle
  imports Complex_Main
begin

section \<open>Numbers and their display text\<close>

text \<open>
  The text fields of the visualizers take decimal integers, and the values the generators
  record are integers too, except where the source reaches \<open>Infinity\<close>, \<open>-Infinity\<close> or
  \<open>NaN\<close> (\<open>Math.min()\<close> and \<open>Math.max()\<close> of no arguments, \<open>Number\<close> of a string
  that is no number). \<open>num\<close> is the JavaScript number restricted to these values: finite
  values are exact integers; fractions, the rounding of doubles and the sign of zero are
  outside the model.
\<close>

datatype num = Fin int | PInf | NInf | NaN

definition digit_char :: "nat \<Rightarrow> char" where
  "digit_char d = ''0123456789'' ! d"

function show_nat :: "nat \<Rightarrow> string" where
  "show_nat n = (if n < 10 then [digit_char n] else show_nat (n div 10) @ [digit_char (n mod 10)])"
  by pat_completeness auto
termination
  by (relation "measure id") auto

definition show_int :: "int \<Rightarrow> string" where
  "show_int i = (if i < 0 then CHR ''-'' # show_nat (nat (- i)) else show_nat (nat i))"

text \<open>
  Comparison and arithmetic follow the language: a comparison with \<open>NaN\<close> is false,
  \<open>Infinity - Infinity\<close> is \<open>NaN\<close>, \<open>%\<close> takes the sign of the dividend.
\<close>

fun jle :: "num \<Rightarrow> num \<Rightarrow> bool" where
  "jle NaN b = False"
| "jle a NaN = False"
| "jle NInf b = True"
| "jle a PInf = True"
| "jle (Fin x) (Fin y) = (x \<le> y)"
| "jle PInf b = False"
| "jle (Fin x) NInf = False"

fun jlt :: "num \<Rightarrow> num \<Rightarrow> bool" where
  "jlt NaN b = False"
| "jlt a NaN = False"
| "jlt (Fin x) (Fin y) = (x < y)"
| "jlt NInf NInf = False"
| "jlt NInf b = True"
| "jlt PInf b = False"
| "jlt (Fin x) PInf = True"
| "jlt (Fin x) NInf = False"

fun jneg :: "num \<Rightarrow> num" where
  "jneg (Fin x) = Fin (- x)"
| "jneg PInf = NInf"
| "jneg NInf = PInf"
| "jneg NaN = NaN"

fun jabs :: "num \<Rightarrow> num" where
  "jabs (Fin x) = Fin \<bar>x\<bar>"
| "jabs PInf = PInf"
| "jabs NInf = PInf"
| "jabs NaN = NaN"

fun jadd :: "num \<Rightarrow> num \<Rightarrow> num" where
  "jadd NaN b = NaN"
| "jadd a NaN = NaN"
| "jadd (Fin x) (Fin y) = Fin (x + y)"
| "jadd PInf NInf = NaN"
| "jadd NInf PInf = NaN"
| "jadd PInf b = PInf"
| "jadd NInf b = NInf"
| "jadd (Fin x) b = b"

fun jmul :: "num \<Rightarrow> num \<Rightarrow> num" where
  "jmul NaN b = NaN"
| "jmul a NaN = NaN"
| "jmul (Fin x) (Fin y) = Fin (x * y)"
| "jmul (Fin x) b = (if x = 0 then NaN else if x > 0 then b else jneg b)"
| "jmul a (Fin y) = (if y = 0 then NaN else if y > 0 then a else jneg a)"
| "jmul a b = (if a = b then PInf else NInf)"

definition jsub :: "num \<Rightarrow> num \<Rightarrow> num" where
  "jsub a b = jadd a (jneg b)"

fun jmin :: "num \<Rightarrow> num \<Rightarrow> num" where
  "jmin NaN b = NaN"
| "jmin a NaN = NaN"
| "jmin a b = (if jle a b then a else b)"

fun jmax :: "num \<Rightarrow> num \<Rightarrow> num" where
  "jmax NaN b = NaN"
| "jmax a NaN = NaN"
| "jmax a b = (if jle a b then b else a)"

fun jmod :: "num \<Rightarrow> num \<Rightarrow> num" where
  "jmod (Fin x) (Fin y) = (if y = 0 then NaN else Fin (sgn x * (\<bar>x\<bar> mod \<bar>y\<bar>)))"
| "jmod (Fin x) PInf = Fin x"
| "jmod (Fin x) NInf = Fin x"
| "jmod a b = NaN"

text \<open>
  \<open>Math.floor(low + (high - low) / 2)\<close>. The half is the one value that need not be an
  integer, so the finite case is computed in the rationals. When \<open>low\<close> or \<open>high\<close> is not
  finite, \<open>high - low\<close> is infinite or \<open>NaN\<close>, and halving and \<open>Math.floor\<close> leave it as
  it is.
\<close>

fun midpoint :: "num \<Rightarrow> num \<Rightarrow> num" where
  "midpoint (Fin l) (Fin h) = Fin \<lfloor>(of_int l :: rat) + (of_int h - of_int l) / 2\<rfloor>"
| "midpoint low high = jadd low (jsub high low)"

fun show_num :: "num \<Rightarrow> string" where
  "show_num (Fin x) = show_int x"
| "show_num PInf = ''Infinity''"
| "show_num NInf = ''-Infinity''"
| "show_num NaN = ''NaN''"

text \<open>\<open>Math.min(...xs)\<close> and \<open>Math.max(...xs)\<close>: \<open>Infinity\<close> and \<open>-Infinity\<close> for no arguments.\<close>

definition Math_min :: "num list \<Rightarrow> num" where
  "Math_min xs = foldl jmin PInf xs"

definition Math_max :: "num list \<Rightarrow> num" where
  "Math_max xs = foldl jmax NInf xs"

fun join :: "string \<Rightarrow> string list \<Rightarrow> string" where
  "join sep [] = []"
| "join sep [x] = x"
| "join sep (x # y # ys) = x @ sep @ join sep (y # ys)"

section \<open>Next Greater Element: the trace generator\<close>

datatype nge_phase = Init | Loop | Pop | Record | Push | Reverse | Complete

record StepState =
  stack :: "int list"
  rawAns :: "int list"
  finalAns :: "int list"
  phase :: nge_phase
  currentIndex :: int
  compareVal :: "int option"
  activeIndices :: "int list"
  poppedVal :: "int option"
  highlightResultIdx :: "int option"
  explanation :: string
  codeLine :: string

text \<open>
  A step with the optional fields absent. \<open>finalAns\<close> is \<open>[]\<close> in every step but the last.
\<close>

definition mk_step ::
  "int list \<Rightarrow> int list \<Rightarrow> nge_phase \<Rightarrow> int \<Rightarrow> int list \<Rightarrow> string \<Rightarrow> string \<Rightarrow> StepState" where
  "mk_step st ans ph i act expl line =
     \<lparr>stack = st, rawAns = ans, finalAns = [], phase = ph, currentIndex = i,
      compareVal = None, activeIndices = act, poppedVal = None, highlightResultIdx = None,
      explanation = expl, codeLine = line\<rparr>"

text \<open>
  The inner \<open>while (stack.length > 0)\<close> loop. The stack is a JavaScript array: its top is
  its last element. The result is the steps pushed and the stack left.
\<close>

function pop_loop :: "int \<Rightarrow> int \<Rightarrow> int list \<Rightarrow> int list \<Rightarrow> StepState list \<times> int list" where
  "pop_loop i currentVal ansList stk =
     (if length stk > 0 then
        let topVal = last stk;
            check = (mk_step stk ansList Pop i [i]
               (''Check Stack Top ('' @ show_int topVal @ ''). Is '' @ show_int currentVal
                  @ '' >= '' @ show_int topVal @ ''?'')
               ''check-pop'')\<lparr>compareVal := Some topVal\<rparr>
        in if currentVal \<ge> topVal then
             let stk' = butlast stk;
                 popped = (mk_step stk' ansList Pop i [i]
                    (''Yes, '' @ show_int currentVal @ '' >= '' @ show_int topVal @ ''. Pop ''
                       @ show_int topVal @ '' because it cannot be the '' @ [CHR 0x22]
                       @ ''Next Greater'' @ [CHR 0x22] @ '' for '' @ show_int currentVal
                       @ '' or anyone to the left.'')
                    ''do-pop'')\<lparr>poppedVal := Some topVal\<rparr>;
                 (rest, stk'') = pop_loop i currentVal ansList stk'
             in (check # popped # rest, stk'')
           else
             let stop = (mk_step stk ansList Pop i [i]
                    (''No, '' @ show_int currentVal @ '' < '' @ show_int topVal
                       @ ''. Stop popping. '' @ show_int topVal @ '' is the next greater element.'')
                    ''check-pop'')\<lparr>compareVal := Some topVal\<rparr>
             in ([check, stop], stk)
      else ([], stk))"
  by pat_completeness auto
termination
  by (relation "measure (\<lambda>(i, currentVal, ansList, stk). length stk)") auto

text \<open>
  One iteration of \<open>for (let i = n - 1; i >= 0; i--)\<close>: the loop step, the pops, the
  recorded answer and the push. The result is the steps pushed, \<open>ansList\<close> and the stack.
\<close>

definition loop_body ::
  "int \<Rightarrow> int \<Rightarrow> int list \<Rightarrow> int list \<Rightarrow> StepState list \<times> int list \<times> int list" where
  "loop_body i currentVal ansList stk =
     (let s_loop = mk_step stk ansList Loop i [i]
            (''Processing index '' @ show_int i @ '' (Value: '' @ show_int currentVal @ '').'')
            ''loop'';
          (pops, stk1) = pop_loop i currentVal ansList stk;
          recordedVal = (if length stk1 > 0 then last stk1 else - 1);
          ansList1 = ansList @ [recordedVal];
          s_rec = (if length stk1 > 0 then
                     (mk_step stk1 ansList1 Record i [i]
                        (''Stack is not empty. Next greater is stack top ('' @ show_int recordedVal
                           @ ''). Add to 'ans'.'')
                        ''add-peek'')\<lparr>highlightResultIdx := Some (int (length ansList1) - 1)\<rparr>
                   else
                     (mk_step stk1 ansList1 Record i [i]
                        ''Stack is empty. No greater element to the right. Add -1 to 'ans'.''
                        ''add-neg1'')\<lparr>highlightResultIdx := Some (int (length ansList1) - 1)\<rparr>);
          stk2 = stk1 @ [currentVal];
          s_push = mk_step stk2 ansList1 Push i [i]
            (''Push current value '' @ show_int currentVal @ '' onto the stack.'')
            ''push''
      in (s_loop # pops @ [s_rec, s_push], ansList1, stk2))"

text \<open>
  The loop \<open>for (let i = n - 1; i >= 0; i--)\<close>, entered at index \<open>i\<close>. It reads
  \<open>arr[i]\<close> only for \<open>0 \<le> i < n\<close>.
\<close>

function for_loop ::
  "int list \<Rightarrow> int \<Rightarrow> int list \<Rightarrow> int list \<Rightarrow> StepState list \<times> int list \<times> int list" where
  "for_loop arr i ansList stk =
     (if i \<ge> 0 then
        let currentVal = arr ! nat i;
            (body, ansList1, stk1) = loop_body i currentVal ansList stk;
            (rest, ansList2, stk2) = for_loop arr (i - 1) ansList1 stk1
        in (body @ rest, ansList2, stk2)
      else ([], ansList, stk))"
  by pat_completeness auto
termination
  by (relation "measure (\<lambda>(arr, i, ansList, stk). nat (i + 1))") auto

definition generateSteps :: "int list \<Rightarrow> StepState list" where
  "generateSteps arr =
     (let s_init = mk_step [] [] Init (- 1) []
            ''Initialize an empty Stack and an ArrayList 'ans'.'' ''init'';
          n = int (length arr);
          (loops, ansList, stk) = for_loop arr (n - 1) [] [];
          s_rev = mk_step stk ansList Reverse (- 1) []
            ''Loop complete. The 'ans' list was built backwards (for n-1 down to 0). Now reverse it.''
            ''reverse'';
          final = rev ansList;
          s_done = (mk_step stk ansList Complete (- 1) []
            (''Reversed 'ans' matches the input array order. Final Result: [''
               @ join '', '' (map show_int final) @ '']'')
            ''return'')\<lparr>finalAns := final\<rparr>
      in s_init # loops @ [s_rev, s_done])"

section \<open>Sum of Subarray Minimums: the trace generator\<close>

record SumStep =
  startIdx :: int
  endIdx :: int
  currentMin :: num
  addedVal :: num
  totalSum :: num
  explanation_sum :: string
  subarrayStr :: string

definition MOD :: int where "MOD = 1000000007"

text \<open>\<open>arr.slice(i, idx + 1)\<close> for \<open>i \<le> idx < n\<close>.\<close>

definition slice :: "nat \<Rightarrow> nat \<Rightarrow> 'a list \<Rightarrow> 'a list" where
  "slice i j xs = take (j - i) (drop i xs)"

text \<open>The inner loop \<open>for (let idx = i; idx < n; idx++)\<close>: the steps pushed and \<open>totalSum\<close>.\<close>

function inner_loop :: "num list \<Rightarrow> nat \<Rightarrow> nat \<Rightarrow> num \<Rightarrow> num \<Rightarrow> SumStep list \<times> num" where
  "inner_loop arr i idx curMin acc =
     (if idx < length arr then
        let curMin' = jmin curMin (arr ! idx);
            acc' = jmod (jadd acc curMin') (Fin MOD);
            s = \<lparr>startIdx = int i, endIdx = int idx, currentMin = curMin', addedVal = curMin',
                 totalSum = acc',
                 explanation_sum = ''Subarray ['' @ show_int (int i) @ ''...'' @ show_int (int idx)
                   @ '']: New element is '' @ show_num (arr ! idx) @ ''. Min('' @ show_num curMin'
                   @ '', '' @ show_num (arr ! idx) @ '') = '' @ show_num curMin' @ ''. Add ''
                   @ show_num curMin' @ '' to total.'',
                 subarrayStr = ''['' @ join '', '' (map show_num (slice i (idx + 1) arr)) @ '']''\<rparr>;
            (rest, acc'') = inner_loop arr i (idx + 1) curMin' acc'
        in (s # rest, acc'')
      else ([], acc))"
  by pat_completeness auto
termination
  by (relation "measure (\<lambda>(arr, i, idx, curMin, acc). length arr - idx)") auto

text \<open>The outer loop \<open>for (let i = 0; i < n; i++)\<close>, each round starting from \<open>Infinity\<close>.\<close>

function outer_loop :: "num list \<Rightarrow> nat \<Rightarrow> num \<Rightarrow> SumStep list \<times> num" where
  "outer_loop arr i acc =
     (if i < length arr then
        let (steps_i, acc') = inner_loop arr i i PInf acc;
            (rest, acc'') = outer_loop arr (i + 1) acc'
        in (steps_i @ rest, acc'')
      else ([], acc))"
  by pat_completeness auto
termination
  by (relation "measure (\<lambda>(arr, i, acc). length arr - i)") auto

definition generateSteps_sum :: "num list \<Rightarrow> SumStep list" where
  "generateSteps_sum arr =
     (let (loops, acc) = outer_loop arr 0 (Fin 0);
          s_done = \<lparr>startIdx = - 1, endIdx = - 1, currentMin = Fin 0, addedVal = Fin 0,
                    totalSum = acc, explanation_sum = ''All subarrays processed.'',
                    subarrayStr = ''Complete''\<rparr>
      in loops @ [s_done])"

section \<open>Capacity To Ship Packages: the trace generator\<close>

datatype ship_phase = Search | Sim_start | Sim_load | Sim_overflow | Sim_fail | Sim_success | Ship_complete

text \<open>The fields of this file's \<open>StepState\<close>, with the prefix \<open>s_\<close>.\<close>

record ShipStep =
  s_low :: num
  s_high :: num
  s_mid :: num
  s_ans :: num
  s_phase :: ship_phase
  s_currentDay :: int
  s_currentLoad :: int
  s_processedPackages :: "nat list"
  s_dayLoads :: "int list list"
  s_errorMsg :: "string option"
  s_explanation :: string
  s_codeLine :: string

text \<open>The display texts of the steps, one definition for each template string.\<close>

definition ship_text_init :: "num \<Rightarrow> num \<Rightarrow> string" where
  "ship_text_init low high =
     ''Initialize Binary Search. Low (min element) = '' @ show_num low
       @ '', High (sum) = '' @ show_num high @ ''.''"

definition ship_text_test :: "num \<Rightarrow> int \<Rightarrow> string" where
  "ship_text_test mid days =
     ''Test Capacity: '' @ show_num mid @ ''. Can we ship within '' @ show_int days @ '' days?''"

definition ship_text_check :: "int \<Rightarrow> int \<Rightarrow> num \<Rightarrow> string" where
  "ship_text_check wt currWeight mid =
     ''Checking package weight '' @ show_int wt @ ''. Current load: '' @ show_int currWeight
       @ ''/'' @ show_num mid @ ''.''"

definition ship_text_added :: "int \<Rightarrow> int \<Rightarrow> string" where
  "ship_text_added wt currWeight =
     ''Added '' @ show_int wt @ ''. Load is now '' @ show_int currWeight @ ''.''"

definition ship_text_new_day :: "int \<Rightarrow> int \<Rightarrow> string" where
  "ship_text_new_day day wt =
     ''Capacity exceeded! Starting Day '' @ show_int day @ '' with package '' @ show_int wt @ ''.''"

definition ship_error_heavy :: "int \<Rightarrow> num \<Rightarrow> string" where
  "ship_error_heavy wt mid =
     ''Package '' @ show_int wt @ '' is heavier than capacity '' @ show_num mid @ ''!''"

definition ship_text_heavy :: "int \<Rightarrow> num \<Rightarrow> string" where
  "ship_text_heavy wt mid =
     ''Impossible. Single package '' @ show_int wt @ '' > Capacity '' @ show_num mid @ ''.''"

definition ship_text_success :: "int \<Rightarrow> int \<Rightarrow> num \<Rightarrow> string" where
  "ship_text_success day days mid =
     ''Success! Used '' @ show_int day @ '' days (<= '' @ show_int days @ ''). Capacity ''
       @ show_num mid @ '' is valid. Try smaller?''"

definition ship_error_days :: "int \<Rightarrow> int \<Rightarrow> string" where
  "ship_error_days day days =
     ''Took '' @ show_int day @ '' days! Limit is '' @ show_int days @ ''.''"

definition ship_text_days :: "int \<Rightarrow> int \<Rightarrow> string" where
  "ship_text_days day days =
     ''Too many days ('' @ show_int day @ '' > '' @ show_int days @ ''). Need larger capacity.''"

definition ship_text_complete :: "num \<Rightarrow> string" where
  "ship_text_complete ans = ''Binary Search Complete. Minimum Capacity: '' @ show_num ans @ ''.''"

text \<open>
  The simulation of \<open>canShip(weights, mid, days)\<close> is the loop
  \<open>for (let i = 0; i < weights.length; i++)\<close> with a \<open>break\<close>. \<open>sim_body\<close> is one
  pass through its body: the steps pushed, whether the \<open>break\<close> was taken, and the new
  \<open>currWeight\<close>, \<open>day\<close> and \<open>allDayLoads\<close>.
\<close>

definition sim_body ::
  "int list \<Rightarrow> num \<Rightarrow> num \<Rightarrow> num \<Rightarrow> num \<Rightarrow> nat \<Rightarrow> int \<Rightarrow> int \<Rightarrow> int list list
     \<Rightarrow> ShipStep list \<times> bool \<times> int \<times> int \<times> int list list" where
  "sim_body weights low high mid ans i currWeight day allDayLoads =
     (let wt = weights ! i;
          s_check = \<lparr>s_low = low, s_high = high, s_mid = mid, s_ans = ans, s_phase = Sim_load,
             s_currentDay = day, s_currentLoad = currWeight, s_processedPackages = [0..<i],
             s_dayLoads = allDayLoads, s_errorMsg = None,
             s_explanation = ship_text_check wt currWeight mid,
             s_codeLine = ''sim-check''\<rparr>;
          fits = jle (Fin (currWeight + wt)) mid;
          currWeight1 = (if fits then currWeight + wt else wt);
          day1 = (if fits then day else day + 1);
          loads1 = (if fits
             then allDayLoads[nat (day - 1) := allDayLoads ! nat (day - 1) @ [wt]]
             else allDayLoads @ [[wt]]);
          s_move = (if fits then
             \<lparr>s_low = low, s_high = high, s_mid = mid, s_ans = ans, s_phase = Sim_load,
              s_currentDay = day1, s_currentLoad = currWeight1, s_processedPackages = [0..<i + 1],
              s_dayLoads = loads1, s_errorMsg = None,
              s_explanation = ship_text_added wt currWeight1,
              s_codeLine = ''sim-add''\<rparr>
           else
             \<lparr>s_low = low, s_high = high, s_mid = mid, s_ans = ans, s_phase = Sim_overflow,
              s_currentDay = day1, s_currentLoad = currWeight1, s_processedPackages = [0..<i + 1],
              s_dayLoads = loads1, s_errorMsg = None,
              s_explanation = ship_text_new_day day1 wt,
              s_codeLine = ''sim-new-day''\<rparr>);
          s_fail = \<lparr>s_low = low, s_high = high, s_mid = mid, s_ans = ans, s_phase = Sim_fail,
             s_currentDay = day1, s_currentLoad = currWeight1, s_processedPackages = [0..<i + 1],
             s_dayLoads = loads1, s_errorMsg = Some (ship_error_heavy wt mid),
             s_explanation = ship_text_heavy wt mid,
             s_codeLine = ''sim-fail-weight''\<rparr>
      in if jlt mid (Fin currWeight1)
         then ([s_check, s_move, s_fail], True, currWeight1, day1, loads1)
         else ([s_check, s_move], False, currWeight1, day1, loads1))"

text \<open>
  The loop itself. The result is the steps pushed, \<open>possible\<close>, \<open>day\<close>, \<open>currWeight\<close> and
  \<open>allDayLoads\<close>.
\<close>

function sim_loop ::
  "int list \<Rightarrow> num \<Rightarrow> num \<Rightarrow> num \<Rightarrow> num \<Rightarrow> nat \<Rightarrow> int \<Rightarrow> int \<Rightarrow> int list list
     \<Rightarrow> ShipStep list \<times> bool \<times> int \<times> int \<times> int list list" where
  "sim_loop weights low high mid ans i currWeight day allDayLoads =
     (if i < length weights then
        (case sim_body weights low high mid ans i currWeight day allDayLoads of
           (pushed, broke, currWeight1, day1, loads1) \<Rightarrow>
             if broke then (pushed, False, day1, currWeight1, loads1)
             else
               (case sim_loop weights low high mid ans (i + 1) currWeight1 day1 loads1 of
                  (rest, possible, day2, currWeight2, loads2) \<Rightarrow>
                    (pushed @ rest, possible, day2, currWeight2, loads2)))
      else ([], True, day, currWeight, allDayLoads))"
  by pat_completeness auto
termination
  by (relation "measure (\<lambda>(weights, low, high, mid, ans, i, r). length weights - i)") auto

text \<open>
  One round of \<open>while (low <= high)\<close>: the steps pushed and the new \<open>low\<close>, \<open>high\<close>
  and \<open>ans\<close>.
\<close>

definition search_round ::
  "int list \<Rightarrow> int \<Rightarrow> num \<Rightarrow> num \<Rightarrow> num \<Rightarrow> ShipStep list \<times> num \<times> num \<times> num" where
  "search_round weights days low high ans =
     (let mid = midpoint low high;
          s_start = \<lparr>s_low = low, s_high = high, s_mid = mid, s_ans = ans, s_phase = Sim_start,
             s_currentDay = 1, s_currentLoad = 0, s_processedPackages = [], s_dayLoads = [[]],
             s_errorMsg = None,
             s_explanation = ship_text_test mid days,
             s_codeLine = ''calc-mid''\<rparr>;
          (sim, possible, day, currWeight, allDayLoads) = sim_loop weights low high mid ans 0 0 1 [[]]
      in if possible then
           if day \<le> days then
             let s_ok = \<lparr>s_low = low, s_high = high, s_mid = mid, s_ans = mid, s_phase = Sim_success,
                s_currentDay = day, s_currentLoad = currWeight,
                s_processedPackages = [0..<length weights], s_dayLoads = allDayLoads,
                s_errorMsg = None,
                s_explanation = ship_text_success day days mid,
                s_codeLine = ''check-success''\<rparr>
             in (s_start # sim @ [s_ok], low, jsub mid (Fin 1), mid)
           else
             let s_late = \<lparr>s_low = low, s_high = high, s_mid = mid, s_ans = ans, s_phase = Sim_fail,
                s_currentDay = day, s_currentLoad = currWeight,
                s_processedPackages = [0..<length weights], s_dayLoads = allDayLoads,
                s_errorMsg = Some (ship_error_days day days),
                s_explanation = ship_text_days day days,
                s_codeLine = ''check-fail-days''\<rparr>
             in (s_start # sim @ [s_late], jadd mid (Fin 1), high, ans)
         else (s_start # sim, jadd mid (Fin 1), high, ans))"

text \<open>
  The loop \<open>while (low <= high)\<close>, appending to \<open>newSteps\<close>. Nothing in the loop bounds
  the number of rounds for every \<open>low\<close> and \<open>high\<close>, so its result is an option:
  \<open>None\<close> is the loop that never ends.
\<close>

partial_function (option) search_loop ::
  "int list \<Rightarrow> int \<Rightarrow> num \<Rightarrow> num \<Rightarrow> num \<Rightarrow> ShipStep list \<Rightarrow> (ShipStep list \<times> num \<times> num \<times> num) option" where
  "search_loop weights days low high ans newSteps =
     (if jle low high then
        (case search_round weights days low high ans of
           (pushed, low', high', ans') \<Rightarrow> search_loop weights days low' high' ans' (newSteps @ pushed))
      else Some (newSteps, low, high, ans))"

declare search_loop.simps [code]

definition generateSteps_ship :: "int list \<Rightarrow> int \<Rightarrow> ShipStep list option" where
  "generateSteps_ship weights days =
     (let low = Math_min (map Fin weights);
          high = Fin (foldl (+) 0 weights);
          s_init = \<lparr>s_low = low, s_high = high, s_mid = Fin 0, s_ans = Fin 0, s_phase = Search,
             s_currentDay = 0, s_currentLoad = 0, s_processedPackages = [], s_dayLoads = [],
             s_errorMsg = None,
             s_explanation = ship_text_init low high,
             s_codeLine = ''init''\<rparr>
      in case search_loop weights days low high (Fin 0) [s_init] of
           None \<Rightarrow> None
         | Some (newSteps, low', high', ans') \<Rightarrow>
             Some (newSteps @
               [\<lparr>s_low = low', s_high = high', s_mid = Fin (- 1), s_ans = ans', s_phase = Ship_complete,
                 s_currentDay = 0, s_currentLoad = 0, s_processedPackages = [], s_dayLoads = [],
                 s_errorMsg = None,
                 s_explanation = ship_text_complete ans',
                 s_codeLine = ''return''\<rparr>]))"

text \<open>
  The Java solution that the code panel of this file shows and the steps follow:
  \<open>canShip(wts, cap, days)\<close> and \<open>shipWithinDays(weights, days)\<close>. In its loop
  \<open>high - low\<close> is not negative, so the division of the two \<open>int\<close>s is \<open>div\<close>;
  \<open>min(weights)\<close> and \<open>sum(weights)\<close> are the least weight and the sum, for a non-empty
  array.
\<close>

fun canShip_from :: "int \<Rightarrow> int \<Rightarrow> int \<Rightarrow> int \<Rightarrow> int list \<Rightarrow> bool" where
  "canShip_from cap days load day [] = (day \<le> days)"
| "canShip_from cap days load day (wt # wts) =
     (let load' = (if load + wt \<le> cap then load + wt else wt);
          day' = (if load + wt \<le> cap then day else day + 1)
      in if load' > cap then False else canShip_from cap days load' day' wts)"

definition canShip :: "int list \<Rightarrow> int \<Rightarrow> int \<Rightarrow> bool" where
  "canShip wts cap days = canShip_from cap days 0 1 wts"

function shipWithinDays_loop :: "int list \<Rightarrow> int \<Rightarrow> int \<Rightarrow> int \<Rightarrow> int \<Rightarrow> int" where
  "shipWithinDays_loop weights days low high ans =
     (if low \<le> high then
        let mid = low + (high - low) div 2
        in if canShip weights mid days
           then shipWithinDays_loop weights days low (mid - 1) mid
           else shipWithinDays_loop weights days (mid + 1) high ans
      else ans)"
  by pat_completeness auto
termination
  by (relation "measure (\<lambda>(weights, days, low, high, ans). nat (high - low + 1))") auto

definition shipWithinDays :: "int list \<Rightarrow> int \<Rightarrow> int" where
  "shipWithinDays weights days =
     shipWithinDays_loop weights days (Min (set weights)) (sum_list weights) 0"

section \<open>Split Array Largest Sum: the trace generator\<close>

datatype split_phase = Split_search | Check_start | Check_process | Check_result

text \<open>The fields of this file's \<open>StepState\<close>, with the prefix \<open>p_\<close>.\<close>

record SplitStep =
  p_lo :: num
  p_hi :: num
  p_mid :: num
  p_res :: num
  p_phase :: split_phase
  p_checkIndex :: "int option"
  p_currentSum :: "int option"
  p_partitionCount :: "int option"
  p_splitIndices :: "nat list"
  p_explanation :: string
  p_codeLine :: string
  p_isFeasible :: "bool option"

text \<open>The sign \<open>\<le>\<close> of the display text, as its three bytes.\<close>

definition le_sign :: string where
  "le_sign = [CHR 0xE2, CHR 0x89, CHR 0xA4]"

text \<open>The display texts of the steps, one definition for each template string.\<close>

definition split_text_init :: "num \<Rightarrow> num \<Rightarrow> string" where
  "split_text_init lo hi =
     ''Initialize Binary Search range. Low (max element) = '' @ show_num lo
       @ '', High (sum of array) = '' @ show_num hi @ ''.''"

definition split_text_test :: "num \<Rightarrow> int \<Rightarrow> string" where
  "split_text_test mid k =
     ''Test Capacity: '' @ show_num mid @ ''. Can we split the array into '' @ le_sign @ '' ''
       @ show_int k @ '' subarrays where each sum '' @ le_sign @ '' '' @ show_num mid @ ''?''"

definition split_text_check :: "int \<Rightarrow> int \<Rightarrow> string" where
  "split_text_check val currentSum =
     ''Checking element '' @ show_int val @ ''. Current Sum: '' @ show_int currentSum @ ''.''"

definition split_text_split :: "int \<Rightarrow> num \<Rightarrow> int \<Rightarrow> string" where
  "split_text_split val mid partitions =
     ''Adding '' @ show_int val @ '' exceeds limit '' @ show_num mid
       @ ''. SPLIT! New partition starts at '' @ show_int val @ ''. Count: '' @ show_int partitions"

definition split_text_fits :: "int \<Rightarrow> int \<Rightarrow> num \<Rightarrow> string" where
  "split_text_fits val currentSum mid =
     ''Adding '' @ show_int val @ '' fits ('' @ show_int currentSum @ '' '' @ le_sign @ '' ''
       @ show_num mid @ ''). Continue.''"

definition split_text_result :: "int \<Rightarrow> int \<Rightarrow> bool \<Rightarrow> string" where
  "split_text_result partitions k valid =
     ''Check complete. Partitions Needed: '' @ show_int partitions @ ''. Target (k): ''
       @ show_int k @ ''. ''
       @ (if valid then ''Valid! (Try smaller capacity)'' else ''Invalid! (Need larger capacity)'')"

definition split_text_hi :: "num \<Rightarrow> num \<Rightarrow> string" where
  "split_text_hi res mid =
     ''Store result '' @ show_num res @ ''. Try lower half: set High = ''
       @ show_num (jsub mid (Fin 1)) @ ''.''"

definition split_text_lo :: "num \<Rightarrow> string" where
  "split_text_lo mid =
     ''Capacity too small. Try upper half: set Low = '' @ show_num (jadd mid (Fin 1)) @ ''.''"

definition split_text_complete :: "num \<Rightarrow> string" where
  "split_text_complete res = ''Search complete. The minimal largest sum is '' @ show_num res @ ''.''"

text \<open>
  The check function is the loop \<open>for (let i = 0; i < n; i++)\<close>. \<open>check_body\<close> is one
  pass through its body: the steps pushed and the new \<open>partitions\<close>, \<open>currentSum\<close> and
  \<open>splits\<close>.
\<close>

definition check_body ::
  "int list \<Rightarrow> num \<Rightarrow> num \<Rightarrow> num \<Rightarrow> num \<Rightarrow> nat \<Rightarrow> int \<Rightarrow> int \<Rightarrow> nat list
     \<Rightarrow> SplitStep list \<times> int \<times> int \<times> nat list" where
  "check_body arr lo hi mid res i partitions currentSum splits =
     (let val = arr ! i;
          s_elem = \<lparr>p_lo = lo, p_hi = hi, p_mid = mid, p_res = res, p_phase = Check_process,
             p_checkIndex = Some (int i), p_currentSum = Some currentSum,
             p_partitionCount = Some partitions, p_splitIndices = splits,
             p_explanation = split_text_check val currentSum,
             p_codeLine = ''check-loop'', p_isFeasible = None\<rparr>;
          over = jlt mid (Fin (currentSum + val));
          partitions1 = (if over then partitions + 1 else partitions);
          splits1 = (if over then splits @ [i] else splits);
          currentSum1 = (if over then val else currentSum + val);
          s_move = \<lparr>p_lo = lo, p_hi = hi, p_mid = mid, p_res = res, p_phase = Check_process,
             p_checkIndex = Some (int i), p_currentSum = Some currentSum1,
             p_partitionCount = Some partitions1, p_splitIndices = splits1,
             p_explanation = (if over then split_text_split val mid partitions1
                              else split_text_fits val currentSum1 mid),
             p_codeLine = (if over then ''check-split'' else ''check-add''),
             p_isFeasible = None\<rparr>
      in ([s_elem, s_move], partitions1, currentSum1, splits1))"

text \<open>The loop itself: the steps pushed, \<open>partitions\<close>, \<open>currentSum\<close> and \<open>splits\<close>.\<close>

function check_loop ::
  "int list \<Rightarrow> num \<Rightarrow> num \<Rightarrow> num \<Rightarrow> num \<Rightarrow> nat \<Rightarrow> int \<Rightarrow> int \<Rightarrow> nat list
     \<Rightarrow> SplitStep list \<times> int \<times> int \<times> nat list" where
  "check_loop arr lo hi mid res i partitions currentSum splits =
     (if i < length arr then
        (case check_body arr lo hi mid res i partitions currentSum splits of
           (pushed, partitions1, currentSum1, splits1) \<Rightarrow>
             (case check_loop arr lo hi mid res (i + 1) partitions1 currentSum1 splits1 of
                (rest, partitions2, currentSum2, splits2) \<Rightarrow>
                  (pushed @ rest, partitions2, currentSum2, splits2)))
      else ([], partitions, currentSum, splits))"
  by pat_completeness auto
termination
  by (relation "measure (\<lambda>(arr, lo, hi, mid, res, i, r). length arr - i)") auto

text \<open>
  One round of \<open>while (lo <= hi)\<close>. The last step of a round is pushed after \<open>hi\<close> or
  \<open>lo\<close> has been moved, and records the moved bound.
\<close>

definition split_round ::
  "int list \<Rightarrow> int \<Rightarrow> num \<Rightarrow> num \<Rightarrow> num \<Rightarrow> SplitStep list \<times> num \<times> num \<times> num" where
  "split_round arr k lo hi res =
     (let n = int (length arr);
          mid = midpoint lo hi;
          s_start = \<lparr>p_lo = lo, p_hi = hi, p_mid = mid, p_res = res, p_phase = Check_start,
             p_checkIndex = Some (- 1), p_currentSum = Some 0, p_partitionCount = Some 1,
             p_splitIndices = [],
             p_explanation = split_text_test mid k,
             p_codeLine = ''calc-mid'', p_isFeasible = None\<rparr>;
          (chk, partitions, currentSum, splits) = check_loop arr lo hi mid res 0 1 0 [];
          valid = (partitions \<le> k);
          s_result = \<lparr>p_lo = lo, p_hi = hi, p_mid = mid, p_res = res, p_phase = Check_result,
             p_checkIndex = Some (n - 1), p_currentSum = Some currentSum,
             p_partitionCount = Some partitions, p_splitIndices = splits,
             p_explanation = split_text_result partitions k valid,
             p_codeLine = ''check-return'', p_isFeasible = Some valid\<rparr>
      in if valid then
           let res' = mid; hi' = jsub mid (Fin 1);
               s_hi = \<lparr>p_lo = lo, p_hi = hi', p_mid = mid, p_res = res', p_phase = Split_search,
                  p_checkIndex = None, p_currentSum = None, p_partitionCount = None,
                  p_splitIndices = splits,
                  p_explanation = split_text_hi res' mid,
                  p_codeLine = ''update-hi'', p_isFeasible = None\<rparr>
           in (s_start # chk @ [s_result, s_hi], lo, hi', res')
         else
           let lo' = jadd mid (Fin 1);
               s_lo = \<lparr>p_lo = lo', p_hi = hi, p_mid = mid, p_res = res, p_phase = Split_search,
                  p_checkIndex = None, p_currentSum = None, p_partitionCount = None,
                  p_splitIndices = splits,
                  p_explanation = split_text_lo mid,
                  p_codeLine = ''update-lo'', p_isFeasible = None\<rparr>
           in (s_start # chk @ [s_result, s_lo], lo', hi, res))"

partial_function (option) split_loop ::
  "int list \<Rightarrow> int \<Rightarrow> num \<Rightarrow> num \<Rightarrow> num \<Rightarrow> SplitStep list \<Rightarrow> (SplitStep list \<times> num \<times> num \<times> num) option" where
  "split_loop arr k lo hi res newSteps =
     (if jle lo hi then
        (case split_round arr k lo hi res of
           (pushed, lo', hi', res') \<Rightarrow> split_loop arr k lo' hi' res' (newSteps @ pushed))
      else Some (newSteps, lo, hi, res))"

declare split_loop.simps [code]

definition generateSteps_split :: "int list \<Rightarrow> int \<Rightarrow> SplitStep list option" where
  "generateSteps_split arr k =
     (let lo = Math_max (map Fin arr);
          hi = Fin (foldl (+) 0 arr);
          res = Fin (- 1);
          s_init = \<lparr>p_lo = lo, p_hi = hi, p_mid = Fin (- 1), p_res = res, p_phase = Split_search,
             p_checkIndex = Some (- 1), p_currentSum = Some 0, p_partitionCount = Some 0,
             p_splitIndices = [],
             p_explanation = split_text_init lo hi,
             p_codeLine = ''init'', p_isFeasible = None\<rparr>
      in case split_loop arr k lo hi res [s_init] of
           None \<Rightarrow> None
         | Some (newSteps, lo', hi', res') \<Rightarrow>
             Some (newSteps @
               [\<lparr>p_lo = lo', p_hi = hi', p_mid = Fin (- 1), p_res = res', p_phase = Split_search,
                 p_checkIndex = None, p_currentSum = None, p_partitionCount = None,
                 p_splitIndices = [],
                 p_explanation = split_text_complete res',
                 p_codeLine = ''return-res'', p_isFeasible = None\<rparr>]))"

text \<open>
  The Java solution that the code panel of this file shows and the steps follow:
  \<open>check(arr, k, limit)\<close>, whose count of partitions is \<open>check_from\<close>, and
  \<open>splitArray(arr, k)\<close>. In its loop \<open>hi - lo\<close> is not negative, so the division of the
  two \<open>int\<close>s is \<open>div\<close>; \<open>max(arr)\<close> and \<open>sum(arr)\<close> are the greatest element and the sum,
  for a non-empty array.
\<close>

fun check_from :: "int \<Rightarrow> int \<Rightarrow> int \<Rightarrow> int list \<Rightarrow> int" where
  "check_from limit cnt sm [] = cnt"
| "check_from limit cnt sm (x # xs) =
     (if sm + x > limit then check_from limit (cnt + 1) x xs
      else check_from limit cnt (sm + x) xs)"

definition check :: "int list \<Rightarrow> int \<Rightarrow> int \<Rightarrow> bool" where
  "check arr k limit = (check_from limit 1 0 arr \<le> k)"

function splitArray_loop :: "int list \<Rightarrow> int \<Rightarrow> int \<Rightarrow> int \<Rightarrow> int \<Rightarrow> int" where
  "splitArray_loop arr k lo hi res =
     (if lo \<le> hi then
        let mid = lo + (hi - lo) div 2
        in if check arr k mid
           then splitArray_loop arr k lo (mid - 1) mid
           else splitArray_loop arr k (mid + 1) hi res
      else res)"
  by pat_completeness auto
termination
  by (relation "measure (\<lambda>(arr, k, lo, hi, res). nat (hi - lo + 1))") auto

definition splitArray :: "int list \<Rightarrow> int \<Rightarrow> int" where
  "splitArray arr k = splitArray_loop arr k (Max (set arr)) (sum_list arr) (- 1)"

section \<open>Maximum Product Subarray: the trace generator\<close>

datatype mp_phase = Mp_init | Check_neg | Swap | Calc_max | Calc_min | Update_res | Mp_complete

text \<open>The fields of this file's \<open>StepState\<close>, with the prefix \<open>m_\<close>.\<close>

record MpStep =
  m_nums :: "num list"
  m_phase :: mp_phase
  m_currentIndex :: int
  m_currVal :: num
  m_maxSoFar :: num
  m_minSoFar :: num
  m_result :: num
  m_prevMax :: num
  m_prevMin :: num
  m_didSwap :: bool
  m_explanation :: string
  m_codeLine :: string

text \<open>
  The loop \<open>for (let i = 1; i < nums.length; i++)\<close>: the steps pushed and the final
  \<open>maxSoFar\<close>, \<open>minSoFar\<close> and \<open>result\<close>.
\<close>

function mp_loop :: "num list \<Rightarrow> nat \<Rightarrow> num \<Rightarrow> num \<Rightarrow> num \<Rightarrow> MpStep list \<times> num \<times> num \<times> num" where
  "mp_loop nums i maxSoFar minSoFar result =
     (if i < length nums then
        let curr = nums ! i;
            prevMax = maxSoFar;
            prevMin = minSoFar;
            s_neg = \<lparr>m_nums = nums, m_phase = Check_neg, m_currentIndex = int i, m_currVal = curr,
               m_maxSoFar = maxSoFar, m_minSoFar = minSoFar, m_result = result,
               m_prevMax = prevMax, m_prevMin = prevMin, m_didSwap = False,
               m_explanation = ''Process index '' @ show_int (int i) @ '' (Value: '' @ show_num curr
                 @ ''). Is '' @ show_num curr @ '' < 0?'',
               m_codeLine = ''loop-start''\<rparr>;
            neg = jlt curr (Fin 0);
            maxSoFar1 = (if neg then minSoFar else maxSoFar);
            minSoFar1 = (if neg then maxSoFar else minSoFar);
            s_swap = (if neg then
               [\<lparr>m_nums = nums, m_phase = Swap, m_currentIndex = int i, m_currVal = curr,
                 m_maxSoFar = maxSoFar1, m_minSoFar = minSoFar1, m_result = result,
                 m_prevMax = prevMax, m_prevMin = prevMin, m_didSwap = True,
                 m_explanation = ''Yes, '' @ show_num curr
                   @ '' is negative. Multiplying by a negative flips signs, so max becomes min and min becomes max. Swap them!'',
                 m_codeLine = ''swap''\<rparr>]
             else []);
            calcPrevMax = maxSoFar1;
            calcPrevMin = minSoFar1;
            newMax = jmax curr (jmul curr maxSoFar1);
            s_max = \<lparr>m_nums = nums, m_phase = Calc_max, m_currentIndex = int i, m_currVal = curr,
               m_maxSoFar = maxSoFar1, m_minSoFar = minSoFar1, m_result = result,
               m_prevMax = calcPrevMax, m_prevMin = calcPrevMin, m_didSwap = False,
               m_explanation = ''Update maxSoFar: Max('' @ show_num curr @ '', '' @ show_num curr
                 @ '' * '' @ show_num calcPrevMax @ '') = '' @ show_num newMax @ ''.'',
               m_codeLine = ''calc-max''\<rparr>;
            newMin = jmin curr (jmul curr calcPrevMin);
            s_min = \<lparr>m_nums = nums, m_phase = Calc_min, m_currentIndex = int i, m_currVal = curr,
               m_maxSoFar = newMax, m_minSoFar = minSoFar1, m_result = result,
               m_prevMax = calcPrevMax, m_prevMin = calcPrevMin, m_didSwap = False,
               m_explanation = ''Update minSoFar: Min('' @ show_num curr @ '', '' @ show_num curr
                 @ '' * '' @ show_num calcPrevMin @ '') = '' @ show_num newMin @ ''.'',
               m_codeLine = ''calc-min''\<rparr>;
            newResult = jmax result newMax;
            s_res = \<lparr>m_nums = nums, m_phase = Update_res, m_currentIndex = int i, m_currVal = curr,
               m_maxSoFar = newMax, m_minSoFar = newMin, m_result = newResult,
               m_prevMax = calcPrevMax, m_prevMin = calcPrevMin, m_didSwap = False,
               m_explanation = ''Update Global Max: Max('' @ show_num result @ '', '' @ show_num newMax
                 @ '') = '' @ show_num newResult @ ''.'',
               m_codeLine = ''update-res''\<rparr>;
            (rest, maxSoFar2, minSoFar2, result2) = mp_loop nums (i + 1) newMax newMin newResult
        in (s_neg # s_swap @ [s_max, s_min, s_res] @ rest, maxSoFar2, minSoFar2, result2)
      else ([], maxSoFar, minSoFar, result))"
  by pat_completeness auto
termination
  by (relation "measure (\<lambda>(nums, i, r). length nums - i)") auto

text \<open>
  \<open>generateSteps\<close> returns at once for an empty array, before \<open>setSteps\<close>: \<open>None\<close> is
  that return, and the component keeps the trace it had.
\<close>

definition generateSteps_mp :: "num list \<Rightarrow> MpStep list option" where
  "generateSteps_mp nums =
     (if length nums = 0 then None
      else
        let maxSoFar = nums ! 0;
            minSoFar = nums ! 0;
            result = maxSoFar;
            s_init = \<lparr>m_nums = nums, m_phase = Mp_init, m_currentIndex = 0, m_currVal = nums ! 0,
               m_maxSoFar = maxSoFar, m_minSoFar = minSoFar, m_result = result,
               m_prevMax = nums ! 0, m_prevMin = nums ! 0, m_didSwap = False,
               m_explanation = ''Initialize maxSoFar, minSoFar, and result with the first element: ''
                 @ show_num (nums ! 0) @ ''.'',
               m_codeLine = ''init''\<rparr>;
            (loops, maxSoFar', minSoFar', result') = mp_loop nums 1 maxSoFar minSoFar result;
            s_done = \<lparr>m_nums = nums, m_phase = Mp_complete, m_currentIndex = - 1, m_currVal = Fin 0,
               m_maxSoFar = maxSoFar', m_minSoFar = minSoFar', m_result = result',
               m_prevMax = Fin 0, m_prevMin = Fin 0, m_didSwap = False,
               m_explanation = ''Finished processing array. Maximum Product Subarray is ''
                 @ show_num result' @ ''.'',
               m_codeLine = ''return''\<rparr>
        in Some (s_init # loops @ [s_done]))"

section \<open>Number of Ways to Arrive at Destination: the simulation\<close>

datatype highlight = No_highlight | Relax | Accumulate | Ignore

text \<open>
  The fields of this file's \<open>Step\<close>, with the prefix \<open>g_\<close>. An edge \<open>{to, weight}\<close> and a
  queue entry \<open>{node, dist}\<close> are pairs.
\<close>

record GraphStep =
  g_id :: nat
  g_description :: string
  g_pq :: "(nat \<times> int) list"
  g_dist :: "num list"
  g_ways :: "num list"
  g_activeNode :: "nat option"
  g_activeNeighbor :: "nat option"
  g_highlightType :: highlight
  g_processed :: "bool list"

text \<open>
  \<open>addStep\<close>: the snapshot of the queue is a sorted copy; \<open>Array.prototype.sort\<close> is
  stable, as \<open>sort_key\<close> is.
\<close>

definition addStep ::
  "string \<Rightarrow> nat option \<Rightarrow> nat option \<Rightarrow> highlight \<Rightarrow> num list \<Rightarrow> num list \<Rightarrow> bool list
     \<Rightarrow> (nat \<times> int) list \<Rightarrow> GraphStep list \<Rightarrow> GraphStep list" where
  "addStep desc currNode currNeigh type dists ways processed pq stps =
     stps @ [\<lparr>g_id = length stps, g_description = desc, g_pq = sort_key snd pq, g_dist = dists,
              g_ways = ways, g_activeNode = currNode, g_activeNeighbor = currNeigh,
              g_highlightType = type, g_processed = processed\<rparr>]"

definition show_node :: "nat \<Rightarrow> string" where
  "show_node v = show_int (int v)"

text \<open>The loop \<open>for (const edge of adj[u])\<close>.\<close>

fun edges_loop ::
  "nat \<Rightarrow> int \<Rightarrow> bool list \<Rightarrow> (nat \<times> int) list
     \<Rightarrow> num list \<times> num list \<times> (nat \<times> int) list \<times> GraphStep list
     \<Rightarrow> num list \<times> num list \<times> (nat \<times> int) list \<times> GraphStep list" where
  "edges_loop u d processed [] st = st"
| "edges_loop u d processed ((v, time) # es) (dists, ways, pq, stps) =
     (let newDist = d + time;
          stps1 = addStep (''Check neighbor Node '' @ show_node v @ '' (weight '' @ show_int time
                    @ ''). New path time: '' @ show_int d @ '' + '' @ show_int time @ '' = ''
                    @ show_int newDist)
                    (Some u) (Some v) No_highlight dists ways processed pq stps
      in if jlt (Fin newDist) (dists ! v) then
           let dists' = dists[v := Fin newDist];
               ways' = ways[v := ways ! u];
               pq' = pq @ [(v, newDist)]
           in edges_loop u d processed es (dists', ways', pq',
                addStep (''Found SHORTER path to '' @ show_node v @ ''! Update dist['' @ show_node v
                    @ '']='' @ show_int newDist @ ''. Ways['' @ show_node v @ ''] is now Ways[''
                    @ show_node u @ ''] ('' @ show_num (ways' ! u) @ ''). Push to PQ.'')
                  (Some u) (Some v) Relax dists' ways' processed pq' stps1)
         else if Fin newDist = dists ! v then
           let ways' = ways[v := jmod (jadd (ways ! v) (ways ! u)) (Fin 1000000007)]
           in edges_loop u d processed es (dists, ways', pq,
                addStep (''Found EQUAL path to '' @ show_node v @ ''! Add Ways['' @ show_node u
                    @ ''] ('' @ show_num (ways' ! u) @ '') to Ways['' @ show_node v
                    @ '']. New Ways['' @ show_node v @ ''] = '' @ show_num (ways' ! v) @ ''.'')
                  (Some u) (Some v) Accumulate dists ways' processed pq stps1)
         else
           edges_loop u d processed es (dists, ways, pq,
             addStep (''Path to '' @ show_node v @ '' ('' @ show_int newDist
                 @ '') is longer than existing ('' @ show_num (dists ! v) @ ''). Ignore.'')
               (Some u) (Some v) Ignore dists ways processed pq stps1))"

text \<open>
  The loop \<open>while (pq.length > 0)\<close>: sort the queue, take its first entry. Its result is
  an option, \<open>None\<close> for the loop that never ends.
\<close>

partial_function (option) pq_loop ::
  "(nat \<times> int) list list \<Rightarrow> num list \<Rightarrow> num list \<Rightarrow> bool list \<Rightarrow> (nat \<times> int) list \<Rightarrow> GraphStep list
     \<Rightarrow> (num list \<times> num list \<times> bool list \<times> (nat \<times> int) list \<times> GraphStep list) option" where
  "pq_loop adj dists ways processed pq stps =
     (if length pq > 0 then
        let sorted_pq = sort_key snd pq;
            u = fst (hd sorted_pq);
            d = snd (hd sorted_pq);
            pq1 = tl sorted_pq;
            stps1 = addStep (''Pop Node '' @ show_node u @ '' (time: '' @ show_int d
                      @ '') from Priority Queue'')
                      (Some u) None No_highlight dists ways processed pq1 stps
        in if jlt (dists ! u) (Fin d) then
             pq_loop adj dists ways processed pq1
               (addStep (''Node '' @ show_node u
                   @ '' has already been processed with a shorter time. Ignore.'')
                 (Some u) None Ignore dists ways processed pq1 stps1)
           else
             let processed' = processed[u := True];
                 r = edges_loop u d processed' (adj ! u) (dists, ways, pq1, stps1)
             in pq_loop adj (fst r) (fst (snd r)) processed' (fst (snd (snd r))) (snd (snd (snd r)))
      else Some (dists, ways, processed, pq, stps))"

declare pq_loop.simps [code]

text \<open>The graph: \<open>adj[u].push\<close> and \<open>adj[v].push\<close> for every road, then each list sorted by \<open>to\<close>.\<close>

definition build_graph :: "nat \<Rightarrow> (nat \<times> nat \<times> int) list \<Rightarrow> (nat \<times> int) list list" where
  "build_graph n roads =
     map (sort_key fst)
       (foldl (\<lambda>adj (u, v, w).
            let adj1 = adj[u := adj ! u @ [(v, w)]] in adj1[v := adj1 ! v @ [(u, w)]])
          (replicate n []) roads)"

definition simulate :: "nat \<Rightarrow> (nat \<times> nat \<times> int) list \<Rightarrow> GraphStep list option" where
  "simulate n roads =
     (let adj = build_graph n roads;
          dists = (replicate n PInf)[0 := Fin 0];
          ways = (replicate n (Fin 0))[0 := Fin 1];
          processed = replicate n False;
          pq = [(0, 0)];
          stps = addStep ''Initialize: Start at Node 0 with dist=0, ways=1'' None None No_highlight
                   dists ways processed pq []
      in case pq_loop adj dists ways processed pq stps of
           None \<Rightarrow> None
         | Some (dists', ways', processed', pq', stps') \<Rightarrow>
             Some (addStep ''Queue is empty. Algorithm Finished.'' None None No_highlight
                     dists' ways' processed' pq' stps'))"

text \<open>The component's constants \<open>n\<close> and \<open>roads\<close> and its memoised \<open>simulation.steps\<close>.\<close>

definition roads_input :: "(nat \<times> nat \<times> int) list" where
  "roads_input = [(0, 6, 7), (0, 1, 2), (1, 2, 3), (1, 3, 3), (6, 3, 3),
                  (3, 5, 1), (6, 5, 1), (2, 5, 1), (0, 4, 5), (4, 6, 2)]"

definition simulation :: "GraphStep list option" where
  "simulation = simulate 7 roads_input"

text \<open>
  What the simulation is to find, as the title of the problem has it: the number of ways
  to arrive at the destination in the shortest time. \<open>ways_spec roads dest b u\<close> counts
  the routes from \<open>u\<close> to \<open>dest\<close> along the roads, in either direction, whose times add up
  to exactly \<open>b\<close>; the shortest time is the least \<open>b\<close> with a route.
\<close>

function ways_spec :: "(nat \<times> nat \<times> int) list \<Rightarrow> nat \<Rightarrow> int \<Rightarrow> nat \<Rightarrow> nat" where
  "ways_spec roads dest b u =
     (if u = dest \<and> b = 0 then 1 else 0) +
     sum_list (map (\<lambda>(x, y, w).
         (if x = u \<and> 0 < w \<and> w \<le> b then ways_spec roads dest (b - w) y else 0) +
         (if y = u \<and> 0 < w \<and> w \<le> b then ways_spec roads dest (b - w) x else 0)) roads)"
  by pat_completeness auto
termination
  by (relation "measure (\<lambda>(roads, dest, b, u). nat b)") auto

section \<open>The player\<close>

text \<open>
  The playback state every visualizer keeps in component state: the trace, the index of
  the step shown, the play flag and the timer interval. The handlers are the same text in
  each file. The flag \<open>isConfigOpen\<close> of the side panel plays no part in them and is left
  out.
\<close>

record 's player =
  steps :: "'s list"
  currentStepIndex :: int
  isPlaying :: bool
  playbackSpeed :: int

definition handleNext :: "('s, 'z) player_scheme \<Rightarrow> ('s, 'z) player_scheme" where
  "handleNext st =
     (if currentStepIndex st < int (length (steps st)) - 1
      then st\<lparr>currentStepIndex := currentStepIndex st + 1\<rparr>
      else st\<lparr>isPlaying := False\<rparr>)"

definition handlePrev :: "('s, 'z) player_scheme \<Rightarrow> ('s, 'z) player_scheme" where
  "handlePrev st =
     (if currentStepIndex st > 0 then st\<lparr>currentStepIndex := currentStepIndex st - 1\<rparr> else st)"

definition handleReset :: "('s, 'z) player_scheme \<Rightarrow> ('s, 'z) player_scheme" where
  "handleReset st = st\<lparr>currentStepIndex := 0, isPlaying := False\<rparr>"

definition togglePlay :: "('s, 'z) player_scheme \<Rightarrow> ('s, 'z) player_scheme" where
  "togglePlay st = st\<lparr>isPlaying := \<not> isPlaying st\<rparr>"

definition setPlaybackSpeed :: "int \<Rightarrow> ('s, 'z) player_scheme \<Rightarrow> ('s, 'z) player_scheme" where
  "setPlaybackSpeed ms st = st\<lparr>playbackSpeed := ms\<rparr>"

text \<open>
  The interval timer exists only while \<open>isPlaying\<close> holds (the effect clears it otherwise)
  and calls \<open>handleNext\<close>.
\<close>

definition timerTick :: "('s, 'z) player_scheme \<Rightarrow> ('s, 'z) player_scheme" where
  "timerTick st = (if isPlaying st then handleNext st else st)"

datatype transport = Next | Prev | Reset | TogglePlay | SetSpeed int | Tick

fun transport_op :: "transport \<Rightarrow> ('s, 'z) player_scheme \<Rightarrow> ('s, 'z) player_scheme" where
  "transport_op Next st = handleNext st"
| "transport_op Prev st = handlePrev st"
| "transport_op Reset st = handleReset st"
| "transport_op TogglePlay st = togglePlay st"
| "transport_op (SetSpeed ms) st = setPlaybackSpeed ms st"
| "transport_op Tick st = timerTick st"

definition run_transport :: "transport list \<Rightarrow> ('s, 'z) player_scheme \<Rightarrow> ('s, 'z) player_scheme" where
  "run_transport ops st = fold transport_op ops st"

section \<open>Next Greater Element: the component\<close>

record ('a, 's) visualizer = "'s player" +
  arr :: "'a list"

definition MAX_ARR_SIZE :: nat where "MAX_ARR_SIZE = 12"
definition MAX_VAL :: int where "MAX_VAL = 50"

text \<open>
  The body of \<open>generateSteps\<close> ends with \<open>setSteps(newSteps); setCurrentStepIndex(0);
  setIsPlaying(false)\<close>; it runs as the effect on \<open>[arr]\<close>, so \<open>setArr\<close> is the state
  update followed by that effect.
\<close>

definition regenerate :: "(int, StepState) visualizer \<Rightarrow> (int, StepState) visualizer" where
  "regenerate st = st\<lparr>steps := generateSteps (arr st), currentStepIndex := 0, isPlaying := False\<rparr>"

definition setArr :: "int list \<Rightarrow> (int, StepState) visualizer \<Rightarrow> (int, StepState) visualizer" where
  "setArr parts st = regenerate (st\<lparr>arr := parts\<rparr>)"

subsection \<open>Parsing the text field\<close>

text \<open>\<open>/^[...]*$/.test(val)\<close> for a character class: every character is in the class.\<close>

definition regex_test :: "string \<Rightarrow> string \<Rightarrow> bool" where
  "regex_test cls val = list_all (\<lambda>c. c \<in> set cls) val"

text \<open>\<open>val.split(',')\<close>: the pieces between the commas, one more than there are commas.\<close>

fun split :: "char \<Rightarrow> string \<Rightarrow> string list" where
  "split sep [] = [[]]"
| "split sep (c # cs) =
     (if c = sep then [] # split sep cs
      else (case split sep cs of [] \<Rightarrow> [[c]] | p # ps \<Rightarrow> (c # p) # ps))"

text \<open>
  \<open>trim\<close> and \<open>Number\<close> on the strings the handlers pass them, which hold only digits,
  spaces and \<open>-\<close>: the only white space is the space, and a string is a number exactly when
  it is a run of digits with at most one \<open>-\<close> in front. Anything else is \<open>NaN\<close>.
\<close>

definition trim :: "string \<Rightarrow> string" where
  "trim s = rev (dropWhile (\<lambda>c. c = CHR '' '') (rev (dropWhile (\<lambda>c. c = CHR '' '') s)))"

definition is_digit :: "char \<Rightarrow> bool" where
  "is_digit c = (c \<in> set ''0123456789'')"

definition digit_val :: "char \<Rightarrow> int" where
  "digit_val c = int (of_char c) - 48"

definition digits_val :: "string \<Rightarrow> int" where
  "digits_val ds = foldl (\<lambda>acc c. 10 * acc + digit_val c) 0 ds"

definition Number :: "string \<Rightarrow> num" where
  "Number s =
     (let t = trim s in
      if t = [] then Fin 0
      else if list_all is_digit t then Fin (digits_val t)
      else if hd t = CHR ''-'' \<and> tl t \<noteq> [] \<and> list_all is_digit (tl t) then Fin (- digits_val (tl t))
      else NaN)"

definition parse_parts :: "string \<Rightarrow> num list" where
  "parse_parts val = map Number (filter (\<lambda>s. s \<noteq> []) (map trim (split CHR '','' val)))"

text \<open>What \<open>setArr\<close> receives is a \<open>number[]\<close>; after the \<open>every\<close> check it holds integers.\<close>

definition int_of_num :: "num \<Rightarrow> int" where
  "int_of_num a = (case a of Fin x \<Rightarrow> x | _ \<Rightarrow> 0)"

definition handleArrChange :: "string \<Rightarrow> (int, StepState) visualizer \<Rightarrow> (int, StepState) visualizer" where
  "handleArrChange val st =
     (if regex_test ''0123456789, -'' val then
        let parts = parse_parts val
        in if length parts \<le> MAX_ARR_SIZE \<and> list_all (\<lambda>n. jle (jabs n) (Fin MAX_VAL)) parts
           then setArr (map int_of_num parts) st
           else st
      else st)"

section \<open>Sum of Subarray Minimums: the component\<close>

definition regenerate_sum :: "(num, SumStep) visualizer \<Rightarrow> (num, SumStep) visualizer" where
  "regenerate_sum st =
     st\<lparr>steps := generateSteps_sum (arr st), currentStepIndex := 0, isPlaying := False\<rparr>"

definition setArr_sum :: "num list \<Rightarrow> (num, SumStep) visualizer \<Rightarrow> (num, SumStep) visualizer" where
  "setArr_sum parts st = regenerate_sum (st\<lparr>arr := parts\<rparr>)"

text \<open>This handler stores the parsed numbers as they are: it has no check on the values.\<close>

definition handleArrChange_sum :: "string \<Rightarrow> (num, SumStep) visualizer \<Rightarrow> (num, SumStep) visualizer" where
  "handleArrChange_sum val st =
     (if regex_test ''0123456789, '' val then
        let parts = parse_parts val
        in if length parts > 0 \<and> length parts \<le> 15 then setArr_sum parts st else st
      else st)"

section \<open>Capacity To Ship Packages: the component\<close>

record ship_visualizer = "ShipStep player" +
  weights :: "int list"
  days :: int

definition MAX_ARR_SIZE_ship :: nat where "MAX_ARR_SIZE_ship = 15"
definition MAX_VAL_ship :: int where "MAX_VAL_ship = 50"

text \<open>
  The effect on \<open>[weights, days]\<close>. When the generator does not return, neither does the
  effect: the result is \<open>None\<close>.
\<close>

definition regenerate_ship :: "ship_visualizer \<Rightarrow> ship_visualizer option" where
  "regenerate_ship st =
     (case generateSteps_ship (weights st) (days st) of
        None \<Rightarrow> None
      | Some newSteps \<Rightarrow> Some (st\<lparr>steps := newSteps, currentStepIndex := 0, isPlaying := False\<rparr>))"

definition setWeights :: "int list \<Rightarrow> ship_visualizer \<Rightarrow> ship_visualizer option" where
  "setWeights parts st = regenerate_ship (st\<lparr>weights := parts\<rparr>)"

definition handleWeightChange :: "string \<Rightarrow> ship_visualizer \<Rightarrow> ship_visualizer option" where
  "handleWeightChange val st =
     (if regex_test ''0123456789, '' val then
        let parts = parse_parts val
        in if length parts \<le> MAX_ARR_SIZE_ship \<and> list_all (\<lambda>n. jle n (Fin MAX_VAL_ship)) parts
           then setWeights (map int_of_num parts) st
           else Some st
      else Some st)"

section \<open>Maximum Product Subarray: the component\<close>

record mp_visualizer = "MpStep player" +
  nums :: "num list"




section \<open>Number of Ways to Arrive at Destination: the controls\<close>

text \<open>
  This component keeps \<open>stepIndex\<close> and \<open>isPlaying\<close> only. Its buttons set \<open>stepIndex\<close>
  directly; the effect on \<open>[isPlaying, stepIndex, simulation.steps.length]\<close> either arms
  the timeout or clears \<open>isPlaying\<close>, and runs when one of them has changed. \<open>len\<close> is
  \<open>simulation.steps.length\<close>.
\<close>

record graph_player =
  stepIndex :: int
  g_isPlaying :: bool

definition play_effect :: "int \<Rightarrow> graph_player \<Rightarrow> graph_player" where
  "play_effect len st =
     (if g_isPlaying st \<and> stepIndex st < len - 1 then st else st\<lparr>g_isPlaying := False\<rparr>)"

definition after_update :: "int \<Rightarrow> graph_player \<Rightarrow> graph_player \<Rightarrow> graph_player" where
  "after_update len st st' =
     (if stepIndex st' \<noteq> stepIndex st \<or> g_isPlaying st' \<noteq> g_isPlaying st
      then play_effect len st' else st')"

definition skipForward :: "int \<Rightarrow> graph_player \<Rightarrow> graph_player" where
  "skipForward len st = after_update len st (st\<lparr>stepIndex := min (len - 1) (stepIndex st + 1)\<rparr>)"

definition skipBack :: "int \<Rightarrow> graph_player \<Rightarrow> graph_player" where
  "skipBack len st = after_update len st (st\<lparr>stepIndex := max 0 (stepIndex st - 1)\<rparr>)"

definition rewind :: "int \<Rightarrow> graph_player \<Rightarrow> graph_player" where
  "rewind len st = after_update len st (st\<lparr>stepIndex := 0\<rparr>)"

definition playPause :: "int \<Rightarrow> graph_player \<Rightarrow> graph_player" where
  "playPause len st = after_update len st (st\<lparr>g_isPlaying := \<not> g_isPlaying st\<rparr>)"

text \<open>The timeout is armed only while \<open>isPlaying\<close> holds before the last index.\<close>

definition timeout_fires :: "int \<Rightarrow> graph_player \<Rightarrow> graph_player" where
  "timeout_fires len st =
     (if g_isPlaying st \<and> stepIndex st < len - 1
      then after_update len st (st\<lparr>stepIndex := stepIndex st + 1\<rparr>) else st)"

datatype control = SkipForward | SkipBack | Rewind | PlayPause | Timeout

fun control_op :: "int \<Rightarrow> control \<Rightarrow> graph_player \<Rightarrow> graph_player" where
  "control_op len SkipForward st = skipForward len st"
| "control_op len SkipBack st = skipBack len st"
| "control_op len Rewind st = rewind len st"
| "control_op len PlayPause st = playPause len st"
| "control_op len Timeout st = timeout_fires len st"

definition run_controls :: "int \<Rightarrow> control list \<Rightarrow> graph_player \<Rightarrow> graph_player" where
  "run_controls len cs st = fold (control_op len) cs st"

section \<open>Split Array Largest Sum: the component\<close>

text \<open>The state \<open>k\<close> of the component is the field \<open>splitK\<close>.\<close>

record split_visualizer = "(int, SplitStep) visualizer" +
  splitK :: int


definition regenerate_split :: "split_visualizer \<Rightarrow> split_visualizer option" where
  "regenerate_split st =
     (case generateSteps_split (arr st) (splitK st) of
        None \<Rightarrow> None
      | Some newSteps \<Rightarrow> Some (st\<lparr>steps := newSteps, currentStepIndex := 0, isPlaying := False\<rparr>))"






section \<open>What the claims say of the traces\<close>

text \<open>
  A probed midpoint in its range: \<open>mid\<close> is \<open>Math.floor(low + (high - low) / 2)\<close> and
  \<open>low <= mid\<close> and \<open>mid <= high\<close> hold as the language compares numbers.
\<close>

definition probe_ok :: "num \<Rightarrow> num \<Rightarrow> num \<Rightarrow> bool" where
  "probe_ok low mid high \<longleftrightarrow> mid = midpoint low high \<and> jle low mid \<and> jle mid high"

text \<open>A step pushed inside a round of the Capacity To Ship Packages search.\<close>

definition ship_inner :: "num \<Rightarrow> num \<Rightarrow> num \<Rightarrow> ShipStep \<Rightarrow> bool" where
  "ship_inner low high mid s \<longleftrightarrow>
     s_low s = low \<and> s_high s = high \<and> s_mid s = mid \<and>
     s_phase s \<noteq> Search \<and> s_phase s \<noteq> Ship_complete"

definition ship_probe :: "ShipStep \<Rightarrow> bool" where
  "ship_probe s \<longleftrightarrow>
     s_phase s \<noteq> Search \<and> s_phase s \<noteq> Ship_complete \<and> probe_ok (s_low s) (s_mid s) (s_high s)"



definition split_recorded :: "SplitStep \<Rightarrow> bool" where
  "split_recorded s \<longleftrightarrow>
     ((p_codeLine s = ''init'' \<or> p_codeLine s = ''return-res'') \<and> p_mid s = Fin (- 1)) \<or>
     (p_codeLine s = ''update-hi'' \<and> (\<exists>h. probe_ok (p_lo s) (p_mid s) h) \<and>
        p_hi s = jsub (p_mid s) (Fin 1) \<and> p_res s = p_mid s) \<or>
     (p_codeLine s = ''update-lo'' \<and> (\<exists>l. probe_ok l (p_mid s) (p_hi s)) \<and>
        p_lo s = jadd (p_mid s) (Fin 1)) \<or>
     (p_phase s \<noteq> Split_search \<and> probe_ok (p_lo s) (p_mid s) (p_hi s))"

text \<open>
  An accumulator in the range of the modulus, \<open>0 \<le> t < 1_000_000_007\<close>, and an array
  element that is a number not below 0.
\<close>

definition mod_range :: "num \<Rightarrow> bool" where
  "mod_range t = (case t of Fin v \<Rightarrow> 0 \<le> v \<and> v < MOD | _ \<Rightarrow> False)"

definition nonneg :: "num \<Rightarrow> bool" where
  "nonneg x = (case x of Fin v \<Rightarrow> 0 \<le> v | _ \<Rightarrow> False)"

text \<open>
  The next greater element of \<open>x\<close> in the elements \<open>ys\<close> to its right: the first one
  greater than \<open>x\<close>, or \<open>-1\<close>. \<open>chain ys\<close> is the stack the algorithm holds after \<open>ys\<close>,
  top first.
\<close>

fun next_greater :: "int \<Rightarrow> int list \<Rightarrow> int" where
  "next_greater x [] = - 1"
| "next_greater x (y # ys) = (if y > x then y else next_greater x ys)"

fun nge_spec :: "int list \<Rightarrow> int list" where
  "nge_spec [] = []"
| "nge_spec (x # xs) = next_greater x xs # nge_spec xs"

fun chain :: "int list \<Rightarrow> int list" where
  "chain [] = []"
| "chain (y # ys) = y # dropWhile (\<lambda>z. z \<le> y) (chain ys)"

section \<open>The trace is fixed under playback\<close>

lemma steps_transport_op: "steps (transport_op t st) = steps st"
  by (cases t)
    (simp_all add: handleNext_def handlePrev_def handleReset_def togglePlay_def
       setPlaybackSpeed_def timerTick_def)

lemma steps_run_transport: "steps (run_transport ts st) = steps st"
  unfolding run_transport_def by (induction ts arbitrary: st) (simp_all add: steps_transport_op)

lemma steps_setArr: "steps (setArr parts st) = generateSteps parts"
  by (simp add: setArr_def regenerate_def)

lemma nge_first_step:
  "generateSteps xs ! 0 =
     mk_step [] [] Init (- 1) [] ''Initialize an empty Stack and an ArrayList 'ans'.'' ''init''"
  by (simp add: generateSteps_def Let_def split: prod.splits)

section \<open>Next Greater Element on \<open>[1, 3, 2, 4]\<close>\<close>

lemma nge_example_final: "finalAns (last (generateSteps [1, 3, 2, 4])) = [3, 4, 4, - 1]"
  by code_simp

lemma nge_example_phase: "phase (last (generateSteps [1, 3, 2, 4])) = Complete"
  by code_simp

lemma nge_example_length: "length (generateSteps [1, 3, 2, 4]) = 23"
  by code_simp

text \<open>
  Claim C1. For the input \<open>[1, 3, 2, 4]\<close> the last step of the trace is the \<open>complete\<close>
  step and its \<open>finalAns\<close> is \<open>[3, 4, 4, -1]\<close>; the step at index 0 has an empty stack and
  empty result lists. This stays so after any playback: whatever state \<open>st0\<close> the component
  was in when the array was set, and whatever transport operations \<open>ts\<close> ran afterwards,
  a reset shows index 0 of the same trace.
\<close>

theorem nge_example:
  "finalAns (last (generateSteps [1, 3, 2, 4])) = [3, 4, 4, - 1] \<and>
   phase (last (generateSteps [1, 3, 2, 4])) = Complete \<and>
   stack (generateSteps [1, 3, 2, 4] ! 0) = [] \<and>
   rawAns (generateSteps [1, 3, 2, 4] ! 0) = [] \<and>
   finalAns (generateSteps [1, 3, 2, 4] ! 0) = [] \<and>
   (let st = handleReset (run_transport ts (setArr [1, 3, 2, 4] st0))
    in currentStepIndex st = 0 \<and>
       steps st = generateSteps [1, 3, 2, 4] \<and>
       stack (steps st ! nat (currentStepIndex st)) = [] \<and>
       rawAns (steps st ! nat (currentStepIndex st)) = [] \<and>
       finalAns (last (steps st)) = [3, 4, 4, - 1])"
proof -
  have reset: "steps (handleReset s) = steps s" "currentStepIndex (handleReset s) = 0"
    for s :: "(int, StepState) visualizer"
    by (simp_all add: handleReset_def)
  show ?thesis
    by (simp add: Let_def reset steps_run_transport steps_setArr nge_example_final
          nge_example_phase nge_first_step mk_step_def)
qed

section \<open>Determinism\<close>

text \<open>
  Claim C2. A generator reads nothing but its input (the source has no random number and
  no clock), so it is a function of the input. Two component states that hold the same
  input, whatever their old traces, indices, play flags and speeds, regenerate traces of the
  same length that agree at every position. This is stated for Next Greater Element, Sum
  of Subarray Minimums, Capacity To Ship Packages and Split Array Largest Sum.
\<close>

theorem regenerate_deterministic:
  assumes "arr st1 = arr st2"
    and "arr su1 = arr su2"
    and "weights sh1 = weights sh2" and "days sh1 = days sh2"
    and "arr sp1 = arr sp2" and "splitK sp1 = splitK sp2"
  shows "length (steps (regenerate st1)) = length (steps (regenerate st2)) \<and>
         (\<forall>i < length (steps (regenerate st1)).
            steps (regenerate st1) ! i = steps (regenerate st2) ! i) \<and>
         steps (regenerate_sum su1) = steps (regenerate_sum su2) \<and>
         map_option steps (regenerate_ship sh1) = map_option steps (regenerate_ship sh2) \<and>
         map_option steps (regenerate_split sp1) = map_option steps (regenerate_split sp2)"
  using assms
  by (simp add: regenerate_def regenerate_sum_def regenerate_ship_def regenerate_split_def
        option.map_comp comp_def split: option.splits)

theorem regenerate_deterministic_witness:
  "arr (\<lparr>steps = [], currentStepIndex = 0, isPlaying = False, playbackSpeed = 1000,
         arr = [1, 3, 2, 4::int]\<rparr> :: (int, StepState) visualizer)
   = arr \<lparr>steps = generateSteps [5], currentStepIndex = 3, isPlaying = True, playbackSpeed = 200,
          arr = [1, 3, 2, 4::int]\<rparr> \<and>
   steps (regenerate \<lparr>steps = [], currentStepIndex = 0, isPlaying = False, playbackSpeed = 1000,
                      arr = [1, 3, 2, 4]\<rparr>) ! 22
   = steps (regenerate \<lparr>steps = generateSteps [5], currentStepIndex = 3, isPlaying = True,
                        playbackSpeed = 200, arr = [1, 3, 2, 4]\<rparr>) ! 22 \<and>
   steps (regenerate_sum \<lparr>steps = [], currentStepIndex = 0, isPlaying = False,
                          playbackSpeed = 800, arr = [Fin 3, Fin 1]\<rparr>)
   = steps (regenerate_sum \<lparr>steps = generateSteps_sum [Fin 7], currentStepIndex = 1,
                            isPlaying = True, playbackSpeed = 100, arr = [Fin 3, Fin 1]\<rparr>) \<and>
   map_option steps (regenerate_ship \<lparr>steps = [], currentStepIndex = 0, isPlaying = False,
                          playbackSpeed = 1000, weights = [3, 2], days = 1\<rparr>)
   = map_option steps (regenerate_ship \<lparr>steps = [], currentStepIndex = 4, isPlaying = True,
                          playbackSpeed = 300, weights = [3, 2], days = 1\<rparr>) \<and>
   map_option steps (regenerate_split \<lparr>steps = [], currentStepIndex = 0, isPlaying = False,
                          playbackSpeed = 1000, arr = [7, 2], splitK = 2\<rparr>)
   = map_option steps (regenerate_split \<lparr>steps = [], currentStepIndex = 9, isPlaying = True,
                          playbackSpeed = 500, arr = [7, 2], splitK = 2\<rparr>)"
proof -
  let ?a = "\<lparr>steps = [], currentStepIndex = 0, isPlaying = False, playbackSpeed = 1000,
             arr = [1, 3, 2, 4::int]\<rparr> :: (int, StepState) visualizer"
  let ?b = "\<lparr>steps = generateSteps [5], currentStepIndex = 3, isPlaying = True,
             playbackSpeed = 200, arr = [1, 3, 2, 4::int]\<rparr>"
  let ?su1 = "\<lparr>steps = [], currentStepIndex = 0, isPlaying = False,
                playbackSpeed = 800, arr = [Fin 3, Fin 1]\<rparr> :: (num, SumStep) visualizer"
  let ?su2 = "\<lparr>steps = generateSteps_sum [Fin 7], currentStepIndex = 1,
                isPlaying = True, playbackSpeed = 100, arr = [Fin 3, Fin 1]\<rparr>"
  let ?sh1 = "\<lparr>steps = [], currentStepIndex = 0, isPlaying = False,
                playbackSpeed = 1000, weights = [3, 2], days = 1\<rparr>"
  let ?sh2 = "\<lparr>steps = [], currentStepIndex = 4, isPlaying = True,
                playbackSpeed = 300, weights = [3, 2], days = 1\<rparr>"
  let ?sp1 = "\<lparr>steps = [], currentStepIndex = 0, isPlaying = False,
                playbackSpeed = 1000, arr = [7, 2], splitK = 2\<rparr>"
  let ?sp2 = "\<lparr>steps = [], currentStepIndex = 9, isPlaying = True,
                playbackSpeed = 500, arr = [7, 2], splitK = 2\<rparr>"
  have h1: "arr ?a = arr ?b" by simp
  have h2: "arr ?su1 = arr ?su2" by simp
  have h3: "weights ?sh1 = weights ?sh2" by simp
  have h4: "days ?sh1 = days ?sh2" by simp
  have h5: "arr ?sp1 = arr ?sp2" by simp
  have h6: "splitK ?sp1 = splitK ?sp2" by simp
  note all = regenerate_deterministic [OF h1 h2 h3 h4 h5 h6]
  have eq: "\<forall>i < length (steps (regenerate ?a)). steps (regenerate ?a) ! i = steps (regenerate ?b) ! i"
    by (rule all [THEN conjunct2, THEN conjunct1])
  have len: "22 < length (steps (regenerate ?a))"
    by (simp add: regenerate_def nge_example_length)
  have at22: "steps (regenerate ?a) ! 22 = steps (regenerate ?b) ! 22"
    by (rule eq [rule_format, OF len])
  note rest = all [THEN conjunct2, THEN conjunct2]
  show ?thesis by (rule conjI [OF h1 conjI [OF at22 rest]])
qed

section \<open>The index stays inside the trace\<close>

lemma transport_op_index:
  assumes "0 \<le> currentStepIndex st" "currentStepIndex st \<le> int (length (steps st)) - 1"
  shows "0 \<le> currentStepIndex (transport_op t st) \<and>
         currentStepIndex (transport_op t st) \<le> int (length (steps st)) - 1"
  using assms
  by (cases t)
    (auto simp add: handleNext_def handlePrev_def handleReset_def togglePlay_def
       setPlaybackSpeed_def timerTick_def)

lemma run_transport_index:
  assumes "0 \<le> currentStepIndex st" "currentStepIndex st \<le> int (length (steps st)) - 1"
  shows "0 \<le> currentStepIndex (run_transport ts st) \<and>
         currentStepIndex (run_transport ts st) \<le> int (length (steps st)) - 1"
  using assms unfolding run_transport_def
proof (induction ts arbitrary: st)
  case Nil
  then show ?case by simp
next
  case (Cons t ts)
  have "0 \<le> currentStepIndex (transport_op t st) \<and>
        currentStepIndex (transport_op t st) \<le> int (length (steps (transport_op t st))) - 1"
    using transport_op_index [OF Cons.prems] by (simp add: steps_transport_op)
  then have "0 \<le> currentStepIndex (fold transport_op ts (transport_op t st)) \<and>
        currentStepIndex (fold transport_op ts (transport_op t st))
          \<le> int (length (steps (transport_op t st))) - 1"
    using Cons.IH by blast
  then show ?case by (simp add: steps_transport_op)
qed

lemma control_op_index:
  assumes "0 \<le> stepIndex g" "stepIndex g \<le> len - 1"
  shows "0 \<le> stepIndex (control_op len c g) \<and> stepIndex (control_op len c g) \<le> len - 1"
  using assms
  by (cases c)
    (auto simp add: skipForward_def skipBack_def rewind_def playPause_def timeout_fires_def
       after_update_def play_effect_def)

lemma run_controls_index:
  assumes "0 \<le> stepIndex g" "stepIndex g \<le> len - 1"
  shows "0 \<le> stepIndex (run_controls len cs g) \<and> stepIndex (run_controls len cs g) \<le> len - 1"
  using assms unfolding run_controls_def
proof (induction cs arbitrary: g)
  case Nil
  then show ?case by simp
next
  case (Cons c cs)
  from control_op_index [OF Cons.prems, of c]
  show ?case using Cons.IH by simp
qed

text \<open>
  Every control of the Number of Ways component leaves the play flag settled: it is set only
  before the last index.
\<close>

lemma control_op_settled:
  assumes "g_isPlaying g \<longrightarrow> stepIndex g < len - 1"
  shows "g_isPlaying (control_op len c g) \<longrightarrow> stepIndex (control_op len c g) < len - 1"
  using assms
  by (cases c)
    (auto simp add: skipForward_def skipBack_def rewind_def playPause_def timeout_fires_def
       after_update_def play_effect_def split: if_splits)

lemma run_controls_settled:
  assumes "g_isPlaying g \<longrightarrow> stepIndex g < len - 1"
  shows "g_isPlaying (run_controls len cs g) \<longrightarrow> stepIndex (run_controls len cs g) < len - 1"
  using assms unfolding run_controls_def
proof (induction cs arbitrary: g)
  case Nil
  then show ?case by simp
next
  case (Cons c cs)
  from Cons.IH [OF control_op_settled [OF Cons.prems, of c]]
  show ?case by simp
qed

text \<open>
  Claim C4. For a trace of length \<open>N \<ge> 1\<close> and an index in \<open>[0, N - 1]\<close>: \<open>handleNext\<close>
  adds exactly 1 before the last index and leaves the play flag alone, and at the last index
  leaves the index and clears \<open>isPlaying\<close>; \<open>handlePrev\<close> subtracts exactly 1 above 0 and
  changes nothing at 0; after any sequence of transport operations (buttons, speed changes,
  timer ticks) the index is still in \<open>[0, N - 1]\<close>. The same holds for the buttons of the
  Number of Ways component, which clamp with \<open>Math.min\<close> and \<open>Math.max\<close>; there the play
  flag at the last index is already clear in every state the effect has settled.
\<close>

theorem transport_keeps_index_in_range:
  fixes st :: "('s, 'z) player_scheme" and g :: graph_player
  assumes "1 \<le> length (steps st)"
    and "0 \<le> currentStepIndex st"
    and "currentStepIndex st \<le> int (length (steps st)) - 1"
    and "1 \<le> len"
    and "0 \<le> stepIndex g"
    and "stepIndex g \<le> len - 1"
    and "g_isPlaying g \<longrightarrow> stepIndex g < len - 1"
  shows
    "(currentStepIndex st < int (length (steps st)) - 1 \<longrightarrow>
        currentStepIndex (handleNext st) = currentStepIndex st + 1 \<and>
        isPlaying (handleNext st) = isPlaying st) \<and>
     (\<not> currentStepIndex st < int (length (steps st)) - 1 \<longrightarrow>
        currentStepIndex (handleNext st) = currentStepIndex st \<and> \<not> isPlaying (handleNext st)) \<and>
     (currentStepIndex st > 0 \<longrightarrow> currentStepIndex (handlePrev st) = currentStepIndex st - 1) \<and>
     (\<not> currentStepIndex st > 0 \<longrightarrow> handlePrev st = st) \<and>
     isPlaying (handlePrev st) = isPlaying st \<and>
     0 \<le> currentStepIndex (run_transport ts st) \<and>
     currentStepIndex (run_transport ts st) \<le> int (length (steps st)) - 1 \<and>
     (stepIndex g < len - 1 \<longrightarrow> stepIndex (skipForward len g) = stepIndex g + 1) \<and>
     (\<not> stepIndex g < len - 1 \<longrightarrow>
        stepIndex (skipForward len g) = stepIndex g \<and> \<not> g_isPlaying (skipForward len g)) \<and>
     (stepIndex g > 0 \<longrightarrow> stepIndex (skipBack len g) = stepIndex g - 1) \<and>
     (\<not> stepIndex g > 0 \<longrightarrow> stepIndex (skipBack len g) = stepIndex g) \<and>
     0 \<le> stepIndex (run_controls len cs g) \<and>
     stepIndex (run_controls len cs g) \<le> len - 1"
proof -
  have next_prev:
    "(currentStepIndex st < int (length (steps st)) - 1 \<longrightarrow>
        currentStepIndex (handleNext st) = currentStepIndex st + 1 \<and>
        isPlaying (handleNext st) = isPlaying st) \<and>
     (\<not> currentStepIndex st < int (length (steps st)) - 1 \<longrightarrow>
        currentStepIndex (handleNext st) = currentStepIndex st \<and> \<not> isPlaying (handleNext st)) \<and>
     (currentStepIndex st > 0 \<longrightarrow> currentStepIndex (handlePrev st) = currentStepIndex st - 1) \<and>
     (\<not> currentStepIndex st > 0 \<longrightarrow> handlePrev st = st) \<and>
     isPlaying (handlePrev st) = isPlaying st"
    by (simp add: handleNext_def handlePrev_def)
  have fwd:
    "(stepIndex g < len - 1 \<longrightarrow> stepIndex (skipForward len g) = stepIndex g + 1) \<and>
     (\<not> stepIndex g < len - 1 \<longrightarrow>
        stepIndex (skipForward len g) = stepIndex g \<and> \<not> g_isPlaying (skipForward len g))"
    using assms(4-7) by (auto simp add: skipForward_def after_update_def play_effect_def)
  have bwd:
    "(stepIndex g > 0 \<longrightarrow> stepIndex (skipBack len g) = stepIndex g - 1) \<and>
     (\<not> stepIndex g > 0 \<longrightarrow> stepIndex (skipBack len g) = stepIndex g)"
    using assms(4-7) by (auto simp add: skipBack_def after_update_def play_effect_def)
  show ?thesis
    using next_prev fwd bwd run_transport_index [OF assms(2,3), of ts]
      run_controls_index [OF assms(5,6), of cs]
    by blast
qed


theorem transport_keeps_index_in_range_witness:
  "1 \<le> length (steps \<lparr>steps = [Init, Loop, Complete], currentStepIndex = 2, isPlaying = True, playbackSpeed = 1000\<rparr>) \<and>
   (0::int) \<le> currentStepIndex \<lparr>steps = [Init, Loop, Complete], currentStepIndex = 2, isPlaying = True, playbackSpeed = 1000\<rparr> \<and>
   currentStepIndex \<lparr>steps = [Init, Loop, Complete], currentStepIndex = 2, isPlaying = True, playbackSpeed = 1000\<rparr>
     \<le> int (length (steps \<lparr>steps = [Init, Loop, Complete], currentStepIndex = 2, isPlaying = True, playbackSpeed = 1000\<rparr>)) - 1 \<and>
   (1::int) \<le> 3 \<and>
   0 \<le> stepIndex \<lparr>stepIndex = 2, g_isPlaying = False\<rparr> \<and>
   stepIndex \<lparr>stepIndex = 2, g_isPlaying = False\<rparr> \<le> 3 - 1 \<and>
   \<not> g_isPlaying \<lparr>stepIndex = 2, g_isPlaying = False\<rparr> \<and>
   currentStepIndex (handleNext \<lparr>steps = [Init, Loop, Complete], currentStepIndex = 2, isPlaying = True, playbackSpeed = 1000\<rparr>) = 2 \<and>
   \<not> isPlaying (handleNext \<lparr>steps = [Init, Loop, Complete], currentStepIndex = 2, isPlaying = True, playbackSpeed = 1000\<rparr>) \<and>
   currentStepIndex (handlePrev \<lparr>steps = [Init, Loop, Complete], currentStepIndex = 2, isPlaying = True, playbackSpeed = 1000\<rparr>) = 1 \<and>
   currentStepIndex (run_transport [Next, Tick, Prev, Prev, Prev, TogglePlay, Tick, Tick, Tick, Reset, Next]
      \<lparr>steps = [Init, Loop, Complete], currentStepIndex = 2, isPlaying = True, playbackSpeed = 1000\<rparr>) \<le> 2 \<and>
   stepIndex (skipForward 3 \<lparr>stepIndex = 2, g_isPlaying = False\<rparr>) = 2 \<and>
   \<not> g_isPlaying (skipForward 3 \<lparr>stepIndex = 2, g_isPlaying = False\<rparr>) \<and>
   stepIndex (skipBack 3 \<lparr>stepIndex = 2, g_isPlaying = False\<rparr>) = 1 \<and>
   stepIndex (run_controls 3 [SkipForward, PlayPause, SkipBack, SkipBack, SkipBack, PlayPause, Timeout, Timeout, Timeout]
      \<lparr>stepIndex = 2, g_isPlaying = False\<rparr>) \<le> 2"
  using transport_keeps_index_in_range
    [of "\<lparr>steps = [Init, Loop, Complete], currentStepIndex = 2, isPlaying = True, playbackSpeed = 1000\<rparr>"
        3 "\<lparr>stepIndex = 2, g_isPlaying = False\<rparr>"
        "[Next, Tick, Prev, Prev, Prev, TogglePlay, Tick, Tick, Tick, Reset, Next]"
        "[SkipForward, PlayPause, SkipBack, SkipBack, SkipBack, PlayPause, Timeout, Timeout, Timeout]"]
  by simp

section \<open>A change of the input\<close>

lemma steps_setArr_sum: "steps (setArr_sum parts st) = generateSteps_sum parts"
  by (simp add: setArr_sum_def regenerate_sum_def)


section \<open>Capacity To Ship Packages with no weights\<close>

lemma search_loop_empty:
  "search_loop [] d PInf (Fin 0) (Fin 0) newSteps = Some (newSteps, PInf, Fin 0, Fin 0)"
  by (simp add: search_loop.simps)

text \<open>
  Claim C10. The blank text field passes the handler's checks and stores the empty list.
  For the empty list \<open>low\<close> is \<open>Math.min()\<close>, that is \<open>Infinity\<close>, and \<open>high\<close> is 0; the
  loop condition \<open>low <= high\<close> is false at once, so the loop adds no step; the trace has
  exactly two steps, the init step and the complete step, and \<open>ans\<close> is 0.
\<close>

theorem ship_empty_weights:
  "map_option weights (handleWeightChange [] st) = Some [] \<and>
   map_option steps (handleWeightChange [] st) = generateSteps_ship [] (days st) \<and>
   map_option currentStepIndex (handleWeightChange [] st) = Some 0 \<and>
   Math_min (map Fin []) = PInf \<and>
   foldl (+) 0 [] = (0::int) \<and>
   jle PInf (Fin 0) = False \<and>
   search_loop [] d PInf (Fin 0) (Fin 0) newSteps = Some (newSteps, PInf, Fin 0, Fin 0) \<and>
   map_option length (generateSteps_ship [] d) = Some 2 \<and>
   map_option (map s_phase) (generateSteps_ship [] d) = Some [Search, Ship_complete] \<and>
   map_option (map s_codeLine) (generateSteps_ship [] d) = Some [''init'', ''return''] \<and>
   map_option (map s_low) (generateSteps_ship [] d) = Some [PInf, PInf] \<and>
   map_option (map s_high) (generateSteps_ship [] d) = Some [Fin 0, Fin 0] \<and>
   map_option (map s_ans) (generateSteps_ship [] d) = Some [Fin 0, Fin 0]"
proof -
  have gen: "generateSteps_ship [] d' \<noteq> None" for d'
    by (simp add: generateSteps_ship_def Math_min_def search_loop_empty Let_def)
  have handler: "handleWeightChange [] st =
     Some (st\<lparr>weights := [], steps := the (generateSteps_ship [] (days st)),
              currentStepIndex := 0, isPlaying := False\<rparr>)"
    using gen [of "days st"]
    by (auto simp add: handleWeightChange_def regex_test_def parse_parts_def trim_def
          MAX_ARR_SIZE_ship_def setWeights_def regenerate_ship_def)
  have stored: "map_option steps (handleWeightChange [] st) = generateSteps_ship [] (days st)"
    using gen [of "days st"] by (auto simp add: handler)
  show ?thesis
    by (simp add: stored search_loop_empty)
      (simp add: handler generateSteps_ship_def Math_min_def search_loop_empty Let_def)
qed

section \<open>The binary searches return\<close>

text \<open>
  For finite bounds the midpoint is \<open>low + (high - low) div 2\<close>, every round moves one
  bound past it, and the loop ends. The steps pushed inside a round record the probe; in
  Split Array Largest Sum the last step of a round, of phase \<open>search\<close>, records a bound
  already moved.
\<close>

lemma midpoint_Fin: "midpoint (Fin l) (Fin h) = Fin (l + (h - l) div 2)"
proof -
  have a: "(of_int l :: rat) + (of_int h - of_int l) / 2 = of_int l + of_int (h - l) / of_int 2"
    by simp
  have b: "\<lfloor>(of_int (h - l) :: rat) / of_int 2\<rfloor> = (h - l) div 2"
    by (rule floor_divide_of_int_eq)
  have c: "\<lfloor>(of_int l :: rat) + of_int (h - l) / of_int 2\<rfloor> = l + \<lfloor>(of_int (h - l) :: rat) / of_int 2\<rfloor>"
    by (simp add: floor_add_int add.commute)
  show ?thesis unfolding midpoint.simps a c b ..
qed

lemma sim_body_steps:
  "sim_body ws low high mid ans i cw day loads = (pushed, r) \<Longrightarrow> s \<in> set pushed \<Longrightarrow>
     ship_inner low high mid s"
  by (auto simp add: sim_body_def Let_def ship_inner_def split: if_splits)

lemma sim_loop_steps:
  "sim_loop ws low high mid ans i cw day loads = (pushed, r) \<Longrightarrow> s \<in> set pushed \<Longrightarrow>
     ship_inner low high mid s"
proof (induction ws low high mid ans i cw day loads arbitrary: pushed r rule: sim_loop.induct)
  case (1 ws low high mid ans i cw day loads)
  show ?case
  proof (cases "i < length ws")
    case False
    with "1.prems" show ?thesis by simp
  next
    case True
    obtain p1 broke cw1 day1 loads1 where
      body: "sim_body ws low high mid ans i cw day loads = (p1, broke, cw1, day1, loads1)"
      by (metis prod_cases5)
    show ?thesis
    proof (cases broke)
      case True
      with "1.prems" \<open>i < length ws\<close> body have "pushed = p1" by simp
      with "1.prems"(2) sim_body_steps [OF body] show ?thesis by simp
    next
      case False
      obtain rest r2 where
        rec: "sim_loop ws low high mid ans (i + 1) cw1 day1 loads1 = (rest, r2)"
        by (cases "sim_loop ws low high mid ans (i + 1) cw1 day1 loads1")
      from "1.prems"(1) \<open>i < length ws\<close> body False rec have "pushed = p1 @ rest"
        by (auto split: prod.splits)
      with "1.prems"(2) have "s \<in> set p1 \<or> s \<in> set rest" by simp
      then show ?thesis
      proof
        assume "s \<in> set p1"
        then show ?thesis by (rule sim_body_steps [OF body])
      next
        assume "s \<in> set rest"
        with "1.IH" [OF \<open>i < length ws\<close> body [symmetric] _ _ _ _ rec] False show ?thesis
          by simp
      qed
    qed
  qed
qed


lemma probe_ok_Fin: "l \<le> h \<Longrightarrow> probe_ok (Fin l) (Fin (l + (h - l) div 2)) (Fin h)"
  by (simp add: probe_ok_def midpoint_Fin del: midpoint.simps)

lemma ship_inner_probe:
  "l \<le> h \<Longrightarrow> ship_inner (Fin l) (Fin h) (Fin (l + (h - l) div 2)) s \<Longrightarrow> ship_probe s"
  using probe_ok_Fin [of l h] by (simp add: ship_inner_def ship_probe_def)

lemma search_round_Fin:
  assumes "l \<le> h"
    and "search_round ws d (Fin l) (Fin h) ans = (pushed, low', high', ans')"
  shows "(\<forall>s \<in> set pushed. ship_probe s) \<and>
         ((low' = Fin l \<and> high' = Fin (l + (h - l) div 2 - 1)) \<or>
          (low' = Fin (l + (h - l) div 2 + 1) \<and> high' = Fin h))"
proof -
  let ?m = "l + (h - l) div 2"
  obtain sim possible day cw loads where
    sim: "sim_loop ws (Fin l) (Fin h) (Fin ?m) ans 0 0 1 [[]] = (sim, possible, day, cw, loads)"
    by (metis prod_cases5)
  have inner: "ship_inner (Fin l) (Fin h) (Fin ?m) s" if "s \<in> set sim" for s
    using sim_loop_steps [OF sim that] .
  have probe: "ship_probe s" if "s \<in> set sim" for s
    using ship_inner_probe [OF assms(1) inner [OF that]] .
  have ok: "probe_ok (Fin l) (Fin ?m) (Fin h)"
    by (rule probe_ok_Fin [OF assms(1)])
  show ?thesis
    using assms(2) probe ok
    by (auto simp add: search_round_def midpoint_Fin sim Let_def jsub_def ship_probe_def
          simp del: midpoint.simps sim_loop.simps split: if_splits)
qed








lemma check_body_steps:
  "check_body xs lo hi mid res i parts cur splits = (pushed, r) \<Longrightarrow> s \<in> set pushed \<Longrightarrow>
     p_lo s = lo \<and> p_hi s = hi \<and> p_mid s = mid"
  by (auto simp add: check_body_def Let_def)

lemma check_loop_steps:
  "check_loop xs lo hi mid res i parts cur splits = (pushed, r) \<Longrightarrow> s \<in> set pushed \<Longrightarrow>
     p_lo s = lo \<and> p_hi s = hi \<and> p_mid s = mid"
proof (induction xs lo hi mid res i parts cur splits arbitrary: pushed r rule: check_loop.induct)
  case (1 xs lo hi mid res i parts cur splits)
  show ?case
  proof (cases "i < length xs")
    case False
    with "1.prems" show ?thesis by simp
  next
    case True
    obtain p1 parts1 cur1 splits1 where
      body: "check_body xs lo hi mid res i parts cur splits = (p1, parts1, cur1, splits1)"
      by (metis prod_cases4)
    obtain rest r2 where
      rec: "check_loop xs lo hi mid res (i + 1) parts1 cur1 splits1 = (rest, r2)"
      by (cases "check_loop xs lo hi mid res (i + 1) parts1 cur1 splits1")
    from "1.prems"(1) True body rec have "pushed = p1 @ rest"
      by (auto split: prod.splits)
    with "1.prems"(2) have "s \<in> set p1 \<or> s \<in> set rest" by simp
    then show ?thesis
    proof
      assume "s \<in> set p1"
      then show ?thesis by (rule check_body_steps [OF body])
    next
      assume "s \<in> set rest"
      with "1.IH" [OF True body [symmetric] refl refl rec] show ?thesis
        by simp
    qed
  qed
qed



lemma split_loop_empty:
  "\<exists>pushed lo' hi' res'.
     split_loop [] k NInf (Fin 0) res acc = Some (acc @ pushed, lo', hi', res')"
  by (simp add: split_loop.simps [of "[]" k NInf] split_round_def Let_def jsub_def
        split_loop.simps [of "[]" k NInf NaN] split_loop.simps [of "[]" k NaN])


section \<open>The binary searches follow the reference solutions\<close>

text \<open>
  The simulation of a round decides what \<open>canShip\<close> decides and the check counts the
  partitions that \<open>check\<close> counts, so the loops move the bounds as the reference solutions
  do and end with their result. Every step of a round of Split Array Largest Sum records
  the probe or, in the last step of the round, the bound just moved.
\<close>

lemma sim_body_result:
  "sim_body ws low high (Fin m) ans i cw day loads = (pushed, broke, cw1, day1, loads1) \<Longrightarrow>
     cw1 = (if cw + ws ! i \<le> m then cw + ws ! i else ws ! i) \<and>
     day1 = (if cw + ws ! i \<le> m then day else day + 1) \<and>
     broke = (m < cw1)"
  by (auto simp add: sim_body_def Let_def split: if_splits)

lemma sim_loop_canShip:
  "sim_loop ws low high (Fin m) ans i cw day loads = (pushed, possible, day', r) \<Longrightarrow>
     (possible \<and> day' \<le> d) = canShip_from m d cw day (drop i ws)"
proof (induction ws low high "Fin m" ans i cw day loads arbitrary: pushed possible day' r
         rule: sim_loop.induct)
  case (1 ws low high ans i cw day loads)
  show ?case
  proof (cases "i < length ws")
    case False
    with "1.prems" show ?thesis by simp
  next
    case True
    obtain p1 broke cw1 day1 loads1 where
      body: "sim_body ws low high (Fin m) ans i cw day loads = (p1, broke, cw1, day1, loads1)"
      by (metis prod_cases5)
    note res = sim_body_result [OF body]
    have dr: "drop i ws = ws ! i # drop (Suc i) ws"
      using True by (simp add: Cons_nth_drop_Suc)
    show ?thesis
    proof (cases broke)
      case True
      with "1.prems" \<open>i < length ws\<close> body have "possible = False" by simp
      with True res show ?thesis by (simp add: dr Let_def)
    next
      case False
      obtain rest possible2 day2 r2 where
        rec: "sim_loop ws low high (Fin m) ans (i + 1) cw1 day1 loads1 = (rest, possible2, day2, r2)"
        by (metis prod_cases4)
      from "1.prems"(1) \<open>i < length ws\<close> body False rec have eq: "possible = possible2" "day' = day2"
        by (auto split: prod.splits)
      have "(possible2 \<and> day2 \<le> d) = canShip_from m d cw1 day1 (drop (i + 1) ws)"
        by (rule "1.hyps" [OF \<open>i < length ws\<close> body [symmetric] refl refl refl False rec])
      with False res eq show ?thesis by (simp add: dr Let_def)
    qed
  qed
qed

lemma search_round_result:
  assumes "search_round ws d (Fin l) (Fin h) ans = (pushed, low', high', ans')"
  shows "if canShip ws (l + (h - l) div 2) d
         then low' = Fin l \<and> high' = Fin (l + (h - l) div 2 - 1) \<and> ans' = Fin (l + (h - l) div 2)
         else low' = Fin (l + (h - l) div 2 + 1) \<and> high' = Fin h \<and> ans' = ans"
proof -
  let ?m = "l + (h - l) div 2"
  obtain sim possible day cw loads where
    sim: "sim_loop ws (Fin l) (Fin h) (Fin ?m) ans 0 0 1 [[]] = (sim, possible, day, cw, loads)"
    by (metis prod_cases5)
  have can: "(possible \<and> day \<le> d) = canShip ws ?m d"
    using sim_loop_canShip [OF sim, of d] by (simp add: canShip_def)
  show ?thesis
    using assms can
    by (auto simp add: search_round_def midpoint_Fin sim Let_def jsub_def
          simp del: midpoint.simps sim_loop.simps split: if_splits)
qed

lemma search_loop_result:
  "\<exists>pushed low' high'.
     search_loop ws d (Fin l) (Fin h) (Fin a) acc
       = Some (acc @ pushed, low', high', Fin (shipWithinDays_loop ws d l h a)) \<and>
     (\<forall>s \<in> set pushed. ship_probe s)"
proof (induction "nat (h - l + 1)" arbitrary: l h a acc rule: less_induct)
  case less
  show ?case
  proof (cases "l \<le> h")
    case False
    then have "search_loop ws d (Fin l) (Fin h) (Fin a) acc = Some (acc @ [], Fin l, Fin h, Fin a)"
      by (simp add: search_loop.simps)
    moreover from False have "shipWithinDays_loop ws d l h a = a"
      by (subst shipWithinDays_loop.simps) simp
    ultimately show ?thesis by fastforce
  next
    case True
    let ?m = "l + (h - l) div 2"
    obtain pushed low' high' ans' where
      rnd: "search_round ws d (Fin l) (Fin h) (Fin a) = (pushed, low', high', ans')"
      by (metis prod_cases4)
    from search_round_Fin [OF True rnd]
    have probes: "\<forall>s \<in> set pushed. ship_probe s"
      by blast
    note res = search_round_result [OF rnd]
    have unfold: "search_loop ws d (Fin l) (Fin h) (Fin a) acc =
        search_loop ws d low' high' ans' (acc @ pushed)"
      using True by (subst search_loop.simps) (simp add: rnd)
    obtain l' h' a' where
      fin: "low' = Fin l'" "high' = Fin h'" "ans' = Fin a'"
      and smaller: "nat (h' - l' + 1) < nat (h - l + 1)"
      and ref: "shipWithinDays_loop ws d l h a = shipWithinDays_loop ws d l' h' a'"
    proof (cases "canShip ws ?m d")
      case True
      with res have "low' = Fin l" "high' = Fin (?m - 1)" "ans' = Fin ?m" by simp_all
      moreover have "nat (?m - 1 - l + 1) < nat (h - l + 1)"
        using \<open>l \<le> h\<close> by simp
      moreover have "shipWithinDays_loop ws d l h a = shipWithinDays_loop ws d l (?m - 1) ?m"
        using \<open>l \<le> h\<close> True by (subst shipWithinDays_loop.simps) (simp add: Let_def)
      ultimately show ?thesis by (rule that)
    next
      case False
      with res have "low' = Fin (?m + 1)" "high' = Fin h" "ans' = Fin a" by simp_all
      moreover have "nat (h - (?m + 1) + 1) < nat (h - l + 1)"
        using \<open>l \<le> h\<close> by simp
      moreover have "shipWithinDays_loop ws d l h a = shipWithinDays_loop ws d (?m + 1) h a"
        using \<open>l \<le> h\<close> False by (subst shipWithinDays_loop.simps) (simp add: Let_def)
      ultimately show ?thesis by (rule that)
    qed
    from less [OF smaller, of a' "acc @ pushed"] obtain more low'' high'' where
      rec: "search_loop ws d (Fin l') (Fin h') (Fin a') (acc @ pushed) =
              Some ((acc @ pushed) @ more, low'', high'', Fin (shipWithinDays_loop ws d l' h' a'))"
      and more: "\<forall>s \<in> set more. ship_probe s"
      by blast
    have "search_loop ws d (Fin l) (Fin h) (Fin a) acc
            = Some (acc @ (pushed @ more), low'', high'', Fin (shipWithinDays_loop ws d l h a))"
      using unfold rec fin ref by simp
    moreover have "\<forall>s \<in> set (pushed @ more). ship_probe s"
      using probes more by auto
    ultimately show ?thesis by blast
  qed
qed

lemma foldl_jmin_min: "foldl jmin (Fin a) (map Fin ws) = Fin (foldl min a ws)"
  by (induction ws arbitrary: a) (simp_all add: min_def)

lemma foldl_min_Min: "foldl min a ws = Min (insert a (set ws))"
proof (induction ws arbitrary: a)
  case Nil
  show ?case by simp
next
  case (Cons w ws)
  show ?case
  proof (cases "set ws = {}")
    case True
    then show ?thesis by (simp add: min_def)
  next
    case False
    then show ?thesis by (simp add: Cons min.assoc)
  qed
qed

lemma Math_min_Min: "ws \<noteq> [] \<Longrightarrow> Math_min (map Fin ws) = Fin (Min (set ws))"
  by (cases ws) (simp_all add: Math_min_def foldl_jmin_min foldl_min_Min)

lemma foldl_jmax_max: "foldl jmax (Fin a) (map Fin ws) = Fin (foldl max a ws)"
  by (induction ws arbitrary: a) (simp_all add: max_def)

lemma foldl_max_Max: "foldl max a ws = Max (insert a (set ws))"
proof (induction ws arbitrary: a)
  case Nil
  show ?case by simp
next
  case (Cons w ws)
  show ?case
  proof (cases "set ws = {}")
    case True
    then show ?thesis by (simp add: max_def)
  next
    case False
    then show ?thesis by (simp add: Cons max.assoc)
  qed
qed

lemma Math_max_Max: "ws \<noteq> [] \<Longrightarrow> Math_max (map Fin ws) = Fin (Max (set ws))"
  by (cases ws) (simp_all add: Math_max_def foldl_jmax_max foldl_max_Max)

lemma foldl_plus_sum_list: "foldl (+) a ws = a + sum_list (ws :: int list)"
  by (induction ws arbitrary: a) simp_all

lemma check_body_result:
  "check_body xs lo hi (Fin m) res i parts cur splits = (pushed, parts1, cur1, splits1) \<Longrightarrow>
     parts1 = (if cur + xs ! i > m then parts + 1 else parts) \<and>
     cur1 = (if cur + xs ! i > m then xs ! i else cur + xs ! i) \<and>
     (\<forall>s \<in> set pushed. p_phase s = Check_process)"
  by (auto simp add: check_body_def Let_def)

lemma check_loop_count:
  "check_loop xs lo hi (Fin m) res i parts cur splits = (pushed, parts', r) \<Longrightarrow>
     parts' = check_from m parts cur (drop i xs) \<and> (\<forall>s \<in> set pushed. p_phase s = Check_process)"
proof (induction xs lo hi "Fin m" res i parts cur splits arbitrary: pushed parts' r
         rule: check_loop.induct)
  case (1 xs lo hi res i parts cur splits)
  show ?case
  proof (cases "i < length xs")
    case False
    with "1.prems" show ?thesis by simp
  next
    case True
    obtain p1 parts1 cur1 splits1 where
      body: "check_body xs lo hi (Fin m) res i parts cur splits = (p1, parts1, cur1, splits1)"
      by (metis prod_cases4)
    note res = check_body_result [OF body]
    have dr: "drop i xs = xs ! i # drop (Suc i) xs"
      using True by (simp add: Cons_nth_drop_Suc)
    obtain rest parts2 r2 where
      rec: "check_loop xs lo hi (Fin m) res (i + 1) parts1 cur1 splits1 = (rest, parts2, r2)"
      by (metis prod_cases3)
    from "1.prems"(1) True body rec have eq: "pushed = p1 @ rest" "parts' = parts2"
      by (auto split: prod.splits)
    have ih: "parts2 = check_from m parts1 cur1 (drop (i + 1) xs) \<and>
        (\<forall>s \<in> set rest. p_phase s = Check_process)"
      by (rule "1.hyps" [OF True body [symmetric] refl refl rec])
    from ih res eq show ?thesis by (auto simp add: dr)
  qed
qed

lemma split_round_result:
  assumes "l \<le> h"
    and "split_round xs k (Fin l) (Fin h) res = (pushed, lo', hi', res')"
  shows "(\<forall>s \<in> set pushed. split_recorded s) \<and>
         (if check xs k (l + (h - l) div 2)
          then lo' = Fin l \<and> hi' = Fin (l + (h - l) div 2 - 1) \<and> res' = Fin (l + (h - l) div 2)
          else lo' = Fin (l + (h - l) div 2 + 1) \<and> hi' = Fin h \<and> res' = res)"
proof -
  let ?m = "l + (h - l) div 2"
  obtain chk partitions cur splits where
    chk: "check_loop xs (Fin l) (Fin h) (Fin ?m) res 0 1 0 [] = (chk, partitions, cur, splits)"
    by (metis prod_cases4)
  have ok: "probe_ok (Fin l) (Fin ?m) (Fin h)"
    by (rule probe_ok_Fin [OF assms(1)])
  from check_loop_count [OF chk]
  have cnt: "(partitions \<le> k) = check xs k ?m"
    and ph: "\<forall>s \<in> set chk. p_phase s = Check_process"
    by (simp_all add: check_def)
  have inner: "split_recorded s" if "s \<in> set chk" for s
    using check_loop_steps [OF chk that] ph that ok by (simp add: split_recorded_def)
  have shape:
    "(\<forall>s \<in> set pushed. s \<in> set chk \<or>
        (p_phase s \<noteq> Split_search \<and> p_lo s = Fin l \<and> p_mid s = Fin ?m \<and> p_hi s = Fin h) \<or>
        (p_codeLine s = ''update-hi'' \<and> p_lo s = Fin l \<and> p_mid s = Fin ?m \<and>
           p_hi s = jsub (Fin ?m) (Fin 1) \<and> p_res s = Fin ?m) \<or>
        (p_codeLine s = ''update-lo'' \<and> p_hi s = Fin h \<and> p_mid s = Fin ?m \<and>
           p_lo s = jadd (Fin ?m) (Fin 1))) \<and>
     (if check xs k ?m
      then lo' = Fin l \<and> hi' = Fin (?m - 1) \<and> res' = Fin ?m
      else lo' = Fin (?m + 1) \<and> hi' = Fin h \<and> res' = res)"
    using assms(2) cnt
    by (auto simp add: split_round_def midpoint_Fin chk Let_def jsub_def
          simp del: midpoint.simps check_loop.simps split: if_splits)
  have "split_recorded s" if "s \<in> set pushed" for s
  proof -
    from shape that consider "s \<in> set chk"
      | "p_phase s \<noteq> Split_search \<and> p_lo s = Fin l \<and> p_mid s = Fin ?m \<and> p_hi s = Fin h"
      | "p_codeLine s = ''update-hi'' \<and> p_lo s = Fin l \<and> p_mid s = Fin ?m \<and>
           p_hi s = jsub (Fin ?m) (Fin 1) \<and> p_res s = Fin ?m"
      | "p_codeLine s = ''update-lo'' \<and> p_hi s = Fin h \<and> p_mid s = Fin ?m \<and>
           p_lo s = jadd (Fin ?m) (Fin 1)"
      by blast
    then show ?thesis
    proof cases
      case 1
      then show ?thesis by (rule inner)
    next
      case 2
      then show ?thesis using ok by (simp add: split_recorded_def)
    next
      case 3
      then have "probe_ok (p_lo s) (p_mid s) (Fin h)" using ok by simp
      then have ex: "\<exists>hh. probe_ok (p_lo s) (p_mid s) hh" ..
      from 3 have "p_codeLine s = ''update-hi''" "p_hi s = jsub (p_mid s) (Fin 1)"
        "p_res s = p_mid s" by simp_all
      with ex have "p_codeLine s = ''update-hi'' \<and> (\<exists>hh. probe_ok (p_lo s) (p_mid s) hh) \<and>
          p_hi s = jsub (p_mid s) (Fin 1) \<and> p_res s = p_mid s"
        by (intro conjI)
      then show ?thesis unfolding split_recorded_def by (rule disjI2 [OF disjI1])
    next
      case 4
      then have "probe_ok (Fin l) (p_mid s) (p_hi s)" using ok by simp
      then have ex: "\<exists>ll. probe_ok ll (p_mid s) (p_hi s)" ..
      from 4 have "p_codeLine s = ''update-lo''" "p_lo s = jadd (p_mid s) (Fin 1)"
        by simp_all
      with ex have "p_codeLine s = ''update-lo'' \<and> (\<exists>ll. probe_ok ll (p_mid s) (p_hi s)) \<and>
          p_lo s = jadd (p_mid s) (Fin 1)"
        by (intro conjI)
      then show ?thesis unfolding split_recorded_def by (rule disjI2 [OF disjI2 [OF disjI1]])
    qed
  qed
  with shape show ?thesis by blast
qed

lemma split_loop_result:
  "\<exists>pushed lo' hi'.
     split_loop xs k (Fin l) (Fin h) (Fin a) acc
       = Some (acc @ pushed, lo', hi', Fin (splitArray_loop xs k l h a)) \<and>
     (\<forall>s \<in> set pushed. split_recorded s)"
proof (induction "nat (h - l + 1)" arbitrary: l h a acc rule: less_induct)
  case less
  show ?case
  proof (cases "l \<le> h")
    case False
    then have "split_loop xs k (Fin l) (Fin h) (Fin a) acc = Some (acc @ [], Fin l, Fin h, Fin a)"
      by (simp add: split_loop.simps)
    moreover from False have "splitArray_loop xs k l h a = a"
      by (subst splitArray_loop.simps) simp
    ultimately show ?thesis by fastforce
  next
    case True
    let ?m = "l + (h - l) div 2"
    obtain pushed lo' hi' res' where
      rnd: "split_round xs k (Fin l) (Fin h) (Fin a) = (pushed, lo', hi', res')"
      by (metis prod_cases4)
    from split_round_result [OF True rnd]
    have probes: "\<forall>s \<in> set pushed. split_recorded s"
      and res: "if check xs k ?m
          then lo' = Fin l \<and> hi' = Fin (?m - 1) \<and> res' = Fin ?m
          else lo' = Fin (?m + 1) \<and> hi' = Fin h \<and> res' = Fin a"
      by blast+
    have unfold: "split_loop xs k (Fin l) (Fin h) (Fin a) acc =
        split_loop xs k lo' hi' res' (acc @ pushed)"
      using True by (subst split_loop.simps) (simp add: rnd)
    obtain l' h' a' where
      fin: "lo' = Fin l'" "hi' = Fin h'" "res' = Fin a'"
      and smaller: "nat (h' - l' + 1) < nat (h - l + 1)"
      and ref: "splitArray_loop xs k l h a = splitArray_loop xs k l' h' a'"
    proof (cases "check xs k ?m")
      case True
      with res have "lo' = Fin l" "hi' = Fin (?m - 1)" "res' = Fin ?m" by simp_all
      moreover have "nat (?m - 1 - l + 1) < nat (h - l + 1)"
        using \<open>l \<le> h\<close> by simp
      moreover have "splitArray_loop xs k l h a = splitArray_loop xs k l (?m - 1) ?m"
        using \<open>l \<le> h\<close> True by (subst splitArray_loop.simps) (simp add: Let_def)
      ultimately show ?thesis by (rule that)
    next
      case False
      with res have "lo' = Fin (?m + 1)" "hi' = Fin h" "res' = Fin a" by simp_all
      moreover have "nat (h - (?m + 1) + 1) < nat (h - l + 1)"
        using \<open>l \<le> h\<close> by simp
      moreover have "splitArray_loop xs k l h a = splitArray_loop xs k (?m + 1) h a"
        using \<open>l \<le> h\<close> False by (subst splitArray_loop.simps) (simp add: Let_def)
      ultimately show ?thesis by (rule that)
    qed
    from less [OF smaller, of a' "acc @ pushed"] obtain more lo'' hi'' where
      rec: "split_loop xs k (Fin l') (Fin h') (Fin a') (acc @ pushed) =
              Some ((acc @ pushed) @ more, lo'', hi'', Fin (splitArray_loop xs k l' h' a'))"
      and more: "\<forall>s \<in> set more. split_recorded s"
      by blast
    have "split_loop xs k (Fin l) (Fin h) (Fin a) acc
            = Some (acc @ (pushed @ more), lo'', hi'', Fin (splitArray_loop xs k l h a))"
      using unfold rec fin ref by simp
    moreover have "\<forall>s \<in> set (pushed @ more). split_recorded s"
      using probes more by auto
    ultimately show ?thesis by blast
  qed
qed

lemma ship_trace_result:
  assumes "ws \<noteq> []"
  shows "\<exists>s_init pushed s_done.
     generateSteps_ship ws d = Some (s_init # pushed @ [s_done]) \<and>
     s_phase s_init = Search \<and> s_codeLine s_init = ''init'' \<and>
     s_low s_init = Fin (Min (set ws)) \<and> s_high s_init = Fin (sum_list ws) \<and>
     s_mid s_init = Fin 0 \<and> s_ans s_init = Fin 0 \<and>
     (\<forall>s \<in> set pushed. ship_probe s) \<and>
     s_phase s_done = Ship_complete \<and> s_codeLine s_done = ''return'' \<and>
     s_mid s_done = Fin (- 1) \<and> s_ans s_done = Fin (shipWithinDays ws d)"
proof -
  have low: "Math_min (map Fin ws) = Fin (Min (set ws))"
    by (rule Math_min_Min [OF assms])
  have high: "foldl (+) 0 ws = sum_list ws"
    by (simp add: foldl_plus_sum_list)
  let ?init = "\<lparr>s_low = Fin (Min (set ws)), s_high = Fin (sum_list ws), s_mid = Fin 0, s_ans = Fin 0,
     s_phase = Search, s_currentDay = 0, s_currentLoad = 0, s_processedPackages = [],
     s_dayLoads = [], s_errorMsg = None,
     s_explanation = ship_text_init (Fin (Min (set ws))) (Fin (sum_list ws)), s_codeLine = ''init''\<rparr>"
  from search_loop_result [of ws d "Min (set ws)" "sum_list ws" 0 "[?init]"]
  obtain pushed low' high' where
    loop: "search_loop ws d (Fin (Min (set ws))) (Fin (sum_list ws)) (Fin 0) [?init]
             = Some ([?init] @ pushed, low', high', Fin (shipWithinDays ws d))"
    and probes: "\<forall>s \<in> set pushed. ship_probe s"
    unfolding shipWithinDays_def by blast
  show ?thesis
    using probes by (simp add: generateSteps_ship_def low high loop Let_def)
qed

lemma split_trace_result:
  assumes "zs \<noteq> []"
  shows "\<exists>s_init pushed s_done.
     generateSteps_split zs k = Some (s_init # pushed @ [s_done]) \<and>
     p_phase s_init = Split_search \<and> p_codeLine s_init = ''init'' \<and>
     p_lo s_init = Fin (Max (set zs)) \<and> p_hi s_init = Fin (sum_list zs) \<and>
     p_mid s_init = Fin (- 1) \<and> p_res s_init = Fin (- 1) \<and>
     (\<forall>s \<in> set pushed. split_recorded s) \<and>
     p_phase s_done = Split_search \<and> p_codeLine s_done = ''return-res'' \<and>
     p_mid s_done = Fin (- 1) \<and> p_res s_done = Fin (splitArray zs k)"
proof -
  have lo: "Math_max (map Fin zs) = Fin (Max (set zs))"
    by (rule Math_max_Max [OF assms])
  have hi: "foldl (+) 0 zs = sum_list zs"
    by (simp add: foldl_plus_sum_list)
  let ?init = "\<lparr>p_lo = Fin (Max (set zs)), p_hi = Fin (sum_list zs), p_mid = Fin (- 1),
     p_res = Fin (- 1), p_phase = Split_search, p_checkIndex = Some (- 1), p_currentSum = Some 0,
     p_partitionCount = Some 0, p_splitIndices = [],
     p_explanation = split_text_init (Fin (Max (set zs))) (Fin (sum_list zs)),
     p_codeLine = ''init'', p_isFeasible = None\<rparr>"
  from split_loop_result [of zs k "Max (set zs)" "sum_list zs" "- 1" "[?init]"]
  obtain pushed lo' hi' where
    loop: "split_loop zs k (Fin (Max (set zs))) (Fin (sum_list zs)) (Fin (- 1)) [?init]
             = Some ([?init] @ pushed, lo', hi', Fin (splitArray zs k))"
    and probes: "\<forall>s \<in> set pushed. split_recorded s"
    unfolding splitArray_def by blast
  show ?thesis
    using probes by (simp add: generateSteps_split_def lo hi loop Let_def)
qed

section \<open>The shape of the traces\<close>

lemma nge_trace_shape:
  "\<exists>pushed ansList stk s_rev.
     generateSteps xs =
       mk_step [] [] Init (- 1) [] ''Initialize an empty Stack and an ArrayList 'ans'.'' ''init''
         # pushed @ [s_rev, (mk_step stk ansList Complete (- 1) []
            (''Reversed 'ans' matches the input array order. Final Result: [''
               @ join '', '' (map show_int (rev ansList)) @ '']'')
            ''return'')\<lparr>finalAns := rev ansList\<rparr>] \<and>
     for_loop xs (int (length xs) - 1) [] [] = (pushed, ansList, stk)"
  by (simp add: generateSteps_def Let_def split: prod.splits)

lemma mp_trace_shape:
  "ns \<noteq> [] \<Longrightarrow>
   \<exists>s_init pushed s_done.
     generateSteps_mp ns = Some (s_init # pushed @ [s_done]) \<and>
     m_phase s_init = Mp_init \<and> m_codeLine s_init = ''init'' \<and> m_currentIndex s_init = 0 \<and>
     m_maxSoFar s_init = ns ! 0 \<and> m_minSoFar s_init = ns ! 0 \<and> m_result s_init = ns ! 0 \<and>
     m_phase s_done = Mp_complete \<and> m_codeLine s_done = ''return'' \<and>
     m_result s_done = snd (snd (snd (mp_loop ns 1 (ns ! 0) (ns ! 0) (ns ! 0))))"
  by (simp add: generateSteps_mp_def Let_def del: mp_loop.simps split: prod.splits)

lemma sum_trace_shape:
  "\<exists>pushed s_done.
     generateSteps_sum ys = pushed @ [s_done] \<and>
     startIdx s_done = - 1 \<and> endIdx s_done = - 1 \<and> subarrayStr s_done = ''Complete'' \<and>
     totalSum s_done = snd (outer_loop ys 0 (Fin 0))"
  by (simp add: generateSteps_sum_def Let_def del: outer_loop.simps split: prod.splits)

lemma sum_first_step:
  "ys \<noteq> [] \<Longrightarrow>
     startIdx (hd (generateSteps_sum ys)) = 0 \<and> endIdx (hd (generateSteps_sum ys)) = 0 \<and>
     totalSum (hd (generateSteps_sum ys)) = jmod (jadd (Fin 0) (jmin PInf (ys ! 0))) (Fin MOD)"
  by (simp add: generateSteps_sum_def outer_loop.simps [of ys 0] inner_loop.simps [of ys 0 0]
        Let_def del: outer_loop.simps inner_loop.simps split: prod.splits)


lemma simulation_first: "map_option (g_description \<circ> hd) simulation
    = Some ''Initialize: Start at Node 0 with dist=0, ways=1''"
  by code_simp

lemma simulation_last: "map_option (g_description \<circ> last) simulation
    = Some ''Queue is empty. Algorithm Finished.''"
  by code_simp

lemma simulation_ways: "map_option (list_all (\<lambda>s. list_all mod_range (g_ways s))) simulation = Some True"
  by code_simp

section \<open>No trace is empty\<close>





section \<open>Next Greater Element computes the next greater elements\<close>

text \<open>
  The stack after the elements \<open>suf\<close> to the right is \<open>chain suf\<close>; popping what is not
  above \<open>x\<close> leaves the next greater element of \<open>x\<close> on top.
\<close>

lemma dropWhile_twice:
  "(\<And>z. Q z \<Longrightarrow> P z) \<Longrightarrow> dropWhile P (dropWhile Q zs) = dropWhile P zs"
  by (induction zs) auto

lemma next_greater_chain:
  "next_greater x ys = (case dropWhile (\<lambda>z. z \<le> x) (chain ys) of [] \<Rightarrow> - 1 | z # _ \<Rightarrow> z)"
proof (induction ys)
  case Nil
  then show ?case by simp
next
  case (Cons y ys)
  show ?case
  proof (cases "y > x")
    case True
    then show ?thesis by simp
  next
    case False
    then have "dropWhile (\<lambda>z. z \<le> x) (dropWhile (\<lambda>z. z \<le> y) (chain ys))
        = dropWhile (\<lambda>z. z \<le> x) (chain ys)"
      by (intro dropWhile_twice) simp
    with False Cons.IH show ?thesis by simp
  qed
qed

lemma pop_loop_stack:
  "snd (pop_loop i x ansList stk) = rev (dropWhile (\<lambda>z. z \<le> x) (rev stk))"
proof (induction stk rule: rev_induct)
  case Nil
  then show ?case by simp
next
  case (snoc t ts)
  show ?case
  proof (cases "x \<ge> t")
    case True
    with snoc show ?thesis
      by (subst pop_loop.simps) (simp add: Let_def split_beta del: pop_loop.simps)
  next
    case False
    then show ?thesis
      by (subst pop_loop.simps) (simp add: Let_def del: pop_loop.simps)
  qed
qed

lemma loop_body_result:
  "snd (loop_body i x ansList (rev (chain suf)))
     = (ansList @ [next_greater x suf], rev (chain (x # suf)))"
proof -
  define dw where "dw = dropWhile (\<lambda>z. z \<le> x) (chain suf)"
  have stk1: "snd (pop_loop i x ansList (rev (chain suf))) = rev dw"
    using pop_loop_stack [of i x ansList "rev (chain suf)"] by (simp add: dw_def)
  have ng: "next_greater x suf = (case dw of [] \<Rightarrow> - 1 | z # _ \<Rightarrow> z)"
    unfolding dw_def by (rule next_greater_chain)
  have rec: "(if length (rev dw) > 0 then last (rev dw) else - 1) = next_greater x suf"
    unfolding ng by (cases dw) simp_all
  have ch: "rev (chain (x # suf)) = rev dw @ [x]"
    by (simp add: dw_def)
  show ?thesis
    unfolding ch rec [symmetric]
    by (simp add: loop_body_def Let_def split_beta stk1 del: pop_loop.simps)
qed

lemma for_loop_result:
  assumes "- 1 \<le> i" and "i < int (length xs)"
  shows "snd (for_loop xs i (rev (nge_spec (drop (nat (i + 1)) xs))) (rev (chain (drop (nat (i + 1)) xs))))
     = (rev (nge_spec xs), rev (chain xs))"
  using assms
proof (induction "nat (i + 1)" arbitrary: i)
  case 0
  then have "i = - 1" by simp
  then show ?case by simp
next
  case (Suc m)
  then have i: "0 \<le> i" "nat i < length xs" and m: "m = nat ((i - 1) + 1)" by auto
  let ?suf = "drop (nat (i + 1)) xs"
  have suf: "drop (nat i) xs = xs ! nat i # ?suf"
    using i by (simp add: Cons_nth_drop_Suc nat_add_distrib)
  have lb: "snd (loop_body i (xs ! nat i) (rev (nge_spec ?suf)) (rev (chain ?suf)))
      = (rev (nge_spec (drop (nat i) xs)), rev (chain (drop (nat i) xs)))"
    unfolding loop_body_result suf by simp
  have bounds: "- 1 \<le> i - 1" "i - 1 < int (length xs)"
    using i by simp_all
  have rec: "snd (for_loop xs (i - 1) (rev (nge_spec (drop (nat i) xs)))
          (rev (chain (drop (nat i) xs)))) = (rev (nge_spec xs), rev (chain xs))"
    using Suc.hyps(1) [OF m bounds] by simp
  have "snd (for_loop xs i (rev (nge_spec ?suf)) (rev (chain ?suf)))
      = snd (for_loop xs (i - 1)
               (fst (snd (loop_body i (xs ! nat i) (rev (nge_spec ?suf)) (rev (chain ?suf)))))
               (snd (snd (loop_body i (xs ! nat i) (rev (nge_spec ?suf)) (rev (chain ?suf))))))"
    using i(1)
    by (subst for_loop.simps) (simp add: Let_def split_beta del: for_loop.simps)
  also have "\<dots> = (rev (nge_spec xs), rev (chain xs))"
    unfolding lb fst_conv snd_conv by (rule rec)
  finally show ?case .
qed

lemma generateSteps_final:
  "finalAns (last (generateSteps xs)) = nge_spec xs \<and>
   rawAns (last (generateSteps xs)) = rev (nge_spec xs) \<and>
   stack (last (generateSteps xs)) = rev (chain xs) \<and>
   phase (last (generateSteps xs)) = Complete \<and>
   codeLine (last (generateSteps xs)) = ''return''"
proof -
  have "snd (for_loop xs (int (length xs) - 1) [] []) = (rev (nge_spec xs), rev (chain xs))"
    using for_loop_result [of "int (length xs) - 1" xs] by simp
  then show ?thesis
    by (simp add: generateSteps_def Let_def mk_step_def split_beta del: for_loop.simps)
qed

section \<open>The midpoints recorded by the binary searches\<close>









section \<open>The accumulators and the modulus\<close>

text \<open>
  For an array of numbers not below 0 every \<open>totalSum\<close> recorded lies in
  \<open>[0, 1_000_000_007)\<close>, and so does every entry of \<open>ways\<close> in the Number of Ways
  simulation (\<open>simulation_ways\<close>).
\<close>

lemma jmin_nonneg: "c = PInf \<or> nonneg c \<Longrightarrow> nonneg x \<Longrightarrow> nonneg (jmin c x)"
  by (cases c; cases x) (auto simp add: nonneg_def)

lemma accumulate_in_range: "mod_range a \<Longrightarrow> nonneg m \<Longrightarrow> mod_range (jmod (jadd a m) (Fin MOD))"
  by (cases a; cases m) (auto simp add: mod_range_def nonneg_def MOD_def sgn_if)

lemma inner_loop_range:
  assumes "list_all nonneg ys" and "mod_range acc" and "curMin = PInf \<or> nonneg curMin"
  shows "list_all (\<lambda>s. mod_range (totalSum s)) (fst (inner_loop ys i idx curMin acc)) \<and>
         mod_range (snd (inner_loop ys i idx curMin acc))"
  using assms
proof (induction ys i idx curMin acc rule: inner_loop.induct)
  case (1 ys i idx curMin acc)
  show ?case
  proof (cases "idx < length ys")
    case False
    with "1.prems" show ?thesis by simp
  next
    case True
    let ?m = "jmin curMin (ys ! idx)"
    let ?a = "jmod (jadd acc ?m) (Fin MOD)"
    have x: "nonneg (ys ! idx)"
      using "1.prems"(1) True by (simp add: list_all_length)
    have m: "nonneg ?m"
      using jmin_nonneg [OF "1.prems"(3) x] .
    have a: "mod_range ?a"
      using accumulate_in_range [OF "1.prems"(2) m] .
    have rec: "list_all (\<lambda>s. mod_range (totalSum s)) (fst (inner_loop ys i (idx + 1) ?m ?a)) \<and>
         mod_range (snd (inner_loop ys i (idx + 1) ?m ?a))"
      using "1.IH" [OF True refl refl refl "1.prems"(1) a] m by blast
    show ?thesis
      using True rec a
      by (subst (1 2) inner_loop.simps) (simp add: Let_def split_beta del: inner_loop.simps)
  qed
qed

lemma outer_loop_range:
  assumes "list_all nonneg ys" and "mod_range acc"
  shows "list_all (\<lambda>s. mod_range (totalSum s)) (fst (outer_loop ys i acc)) \<and>
         mod_range (snd (outer_loop ys i acc))"
  using assms
proof (induction ys i acc rule: outer_loop.induct)
  case (1 ys i acc)
  show ?case
  proof (cases "i < length ys")
    case False
    with "1.prems" show ?thesis by simp
  next
    case True
    from inner_loop_range [OF "1.prems"(1,2), of PInf i i]
    have inner: "list_all (\<lambda>s. mod_range (totalSum s)) (fst (inner_loop ys i i PInf acc))"
      and acc': "mod_range (snd (inner_loop ys i i PInf acc))"
      by simp_all
    have rec: "list_all (\<lambda>s. mod_range (totalSum s))
                 (fst (outer_loop ys (i + 1) (snd (inner_loop ys i i PInf acc)))) \<and>
         mod_range (snd (outer_loop ys (i + 1) (snd (inner_loop ys i i PInf acc))))"
      using "1.IH" [OF True refl prod.collapse "1.prems"(1) acc'] .
    show ?thesis
      using True rec inner
      by (subst (1 2) outer_loop.simps)
        (simp add: Let_def split_beta del: outer_loop.simps inner_loop.simps)
  qed
qed

lemma sum_totals_in_range:
  assumes "list_all nonneg ys"
  shows "list_all (\<lambda>s. mod_range (totalSum s)) (generateSteps_sum ys)"
proof -
  have "mod_range (Fin 0)" by (simp add: mod_range_def MOD_def)
  from outer_loop_range [OF assms this, of 0] show ?thesis
    by (simp add: generateSteps_sum_def Let_def split_beta del: outer_loop.simps)
qed

lemma parse_one_two: "parse_parts ''1 2'' = [NaN]"
  by code_simp

lemma regex_one_two: "regex_test ''0123456789, '' ''1 2''"
  by code_simp

lemma regex_one_two_nge: "regex_test ''0123456789, -'' ''1 2''"
  by code_simp

lemma sum_of_NaN: "map totalSum (generateSteps_sum [NaN]) = [NaN, NaN]"
  by code_simp

text \<open>
  Claim C7. The handler of Sum of Subarray Minimums stores what \<open>Number\<close> returns without
  looking at it, so the text \<open>1 2\<close> (one token, not a number) stores the array \<open>[NaN]\<close>.
  For that array \<open>Math.min(Infinity, NaN)\<close> is \<open>NaN\<close>, and every \<open>totalSum\<close> recorded is
  \<open>NaN\<close>, which is not in \<open>[0, 1_000_000_007)\<close>.
\<close>

theorem sum_total_not_a_number:
  "arr (handleArrChange_sum ''1 2'' st) = [NaN] \<and>
   steps (handleArrChange_sum ''1 2'' st) = generateSteps_sum [NaN] \<and>
   map totalSum (steps (handleArrChange_sum ''1 2'' st)) = [NaN, NaN] \<and>
   jmin PInf NaN = NaN \<and>
   jmod (jadd (Fin 0) NaN) (Fin MOD) = NaN \<and>
   mod_range NaN = False"
  by (simp add: handleArrChange_sum_def regex_one_two parse_one_two setArr_sum_def
        regenerate_sum_def sum_of_NaN mod_range_def Let_def)

section \<open>Edits that fail validation\<close>

text \<open>
  In Next Greater Element an edit that fails one of the handler's checks leaves the whole
  component state as it was, and the state changes only when every token of the text is an
  integer of absolute value at most 50 and there are at most 12 of them. In Sum of Subarray
  Minimums an edit that fails the pattern or the count check leaves the state as it was.
\<close>

lemma handleArrChange_rejected:
  assumes "\<not> (regex_test ''0123456789, -'' val \<and> length (parse_parts val) \<le> MAX_ARR_SIZE \<and>
             list_all (\<lambda>n. jle (jabs n) (Fin MAX_VAL)) (parse_parts val))"
  shows "handleArrChange val st = st"
  using assms by (auto simp add: handleArrChange_def Let_def)

lemma within_MAX_VAL: "jle (jabs n) (Fin MAX_VAL) \<Longrightarrow> \<exists>v. n = Fin v \<and> \<bar>v\<bar> \<le> MAX_VAL"
  by (cases n) simp_all

lemma handleArrChange_accepted:
  assumes "handleArrChange val st \<noteq> st"
  shows "regex_test ''0123456789, -'' val \<and> length (parse_parts val) \<le> 12 \<and>
         (\<forall>n \<in> set (parse_parts val). \<exists>v. n = Fin v \<and> \<bar>v\<bar> \<le> 50) \<and>
         handleArrChange val st = setArr (map int_of_num (parse_parts val)) st"
proof -
  from assms have ok: "regex_test ''0123456789, -'' val" "length (parse_parts val) \<le> MAX_ARR_SIZE"
      "list_all (\<lambda>n. jle (jabs n) (Fin MAX_VAL)) (parse_parts val)"
    using handleArrChange_rejected [of val st] by blast+
  have "\<forall>n \<in> set (parse_parts val). \<exists>v. n = Fin v \<and> \<bar>v\<bar> \<le> MAX_VAL"
    using ok(3) within_MAX_VAL by (simp add: list_all_iff)
  then show ?thesis
    using ok by (simp add: handleArrChange_def Let_def MAX_ARR_SIZE_def MAX_VAL_def)
qed

lemma handleArrChange_sum_rejected:
  assumes "\<not> (regex_test ''0123456789, '' val \<and> 0 < length (parse_parts val) \<and>
             length (parse_parts val) \<le> 15)"
  shows "handleArrChange_sum val st = st"
  using assms by (auto simp add: handleArrChange_sum_def Let_def)

text \<open>
  Claim C8. In Sum of Subarray Minimums the text \<open>1 2\<close> passes the pattern and the count
  check, though \<open>Number\<close> of its only token is \<open>NaN\<close>: the handler stores \<open>[NaN]\<close>,
  regenerates the trace and resets the player. The input state is updated by a text that
  does not parse. Next Greater Element rejects the same text.
\<close>

theorem sum_handler_stores_unparsed_text:
  "regex_test ''0123456789, '' ''1 2'' \<and>
   split CHR '','' ''1 2'' = [''1 2''] \<and>
   Number ''1 2'' = NaN \<and>
   handleArrChange_sum ''1 2'' st = setArr_sum [NaN] st \<and>
   arr (handleArrChange_sum ''1 2'' st) = [NaN] \<and>
   currentStepIndex (handleArrChange_sum ''1 2'' st) = 0 \<and>
   handleArrChange ''1 2'' st' = st'"
proof -
  have a: "split CHR '','' ''1 2'' = [''1 2'']" by code_simp
  have b: "Number ''1 2'' = NaN" by code_simp
  have c: "handleArrChange ''1 2'' st' = st'"
    by (simp add: handleArrChange_def regex_one_two_nge parse_one_two)
  show ?thesis
    by (simp add: a b c handleArrChange_sum_def regex_one_two parse_one_two setArr_sum_def
          regenerate_sum_def Let_def)
qed

section \<open>The first and the last step of a trace\<close>

text \<open>
  The first and the last step of the two binary searches, with what they record of the
  bounds and of the answer, and of the Number of Ways simulation. For the destination of
  its graph, node 6, no route takes less than 7 and four routes take 7.
\<close>

lemma ship_last_step:
  "\<exists>ss. generateSteps_ship ws d = Some ss \<and>
        s_phase (hd ss) = Search \<and> s_codeLine (hd ss) = ''init'' \<and>
        s_low (hd ss) = Math_min (map Fin ws) \<and> s_high (hd ss) = Fin (sum_list ws) \<and>
        s_ans (hd ss) = Fin 0 \<and>
        s_phase (last ss) = Ship_complete \<and> s_codeLine (last ss) = ''return'' \<and>
        s_ans (last ss) = (if ws = [] then Fin 0 else Fin (shipWithinDays ws d))"
proof (cases "ws = []")
  case True
  then show ?thesis
    by (simp add: generateSteps_ship_def Math_min_def search_loop_empty Let_def)
next
  case False
  from ship_trace_result [OF False, of d] Math_min_Min [OF False] False show ?thesis
    by auto
qed

lemma split_last_step:
  "\<exists>ss. generateSteps_split zs kk = Some ss \<and>
        p_phase (hd ss) = Split_search \<and> p_codeLine (hd ss) = ''init'' \<and>
        p_mid (hd ss) = Fin (- 1) \<and> p_res (hd ss) = Fin (- 1) \<and>
        p_phase (last ss) = Split_search \<and> p_codeLine (last ss) = ''return-res'' \<and>
        (zs \<noteq> [] \<longrightarrow>
           p_lo (hd ss) = Fin (Max (set zs)) \<and> p_hi (hd ss) = Fin (sum_list zs) \<and>
           p_res (last ss) = Fin (splitArray zs kk))"
proof (cases "zs = []")
  case True
  obtain pushed lo' hi' res' where
    "split_loop [] kk NInf (Fin 0) (Fin (- 1))
       [\<lparr>p_lo = NInf, p_hi = Fin 0, p_mid = Fin (- 1), p_res = Fin (- 1), p_phase = Split_search,
         p_checkIndex = Some (- 1), p_currentSum = Some 0, p_partitionCount = Some 0,
         p_splitIndices = [], p_explanation = split_text_init NInf (Fin 0),
         p_codeLine = ''init'', p_isFeasible = None\<rparr>]
     = Some ([\<lparr>p_lo = NInf, p_hi = Fin 0, p_mid = Fin (- 1), p_res = Fin (- 1), p_phase = Split_search,
         p_checkIndex = Some (- 1), p_currentSum = Some 0, p_partitionCount = Some 0,
         p_splitIndices = [], p_explanation = split_text_init NInf (Fin 0),
         p_codeLine = ''init'', p_isFeasible = None\<rparr>] @ pushed, lo', hi', res')"
    using split_loop_empty by blast
  then show ?thesis
    using True by (simp add: generateSteps_split_def Math_max_def Let_def)
next
  case False
  from split_trace_result [OF False, of kk] False show ?thesis
    by auto
qed

lemma simulation_initial:
  "map_option (g_dist \<circ> hd) simulation = Some [Fin 0, PInf, PInf, PInf, PInf, PInf, PInf] \<and>
   map_option (g_ways \<circ> hd) simulation = Some [Fin 1, Fin 0, Fin 0, Fin 0, Fin 0, Fin 0, Fin 0]"
  by code_simp

lemma simulation_result:
  "map_option (g_dist \<circ> last) simulation = Some [Fin 0, Fin 2, Fin 5, Fin 5, Fin 5, Fin 6, Fin 7] \<and>
   map_option (g_ways \<circ> last) simulation = Some [Fin 1, Fin 1, Fin 1, Fin 1, Fin 1, Fin 2, Fin 4]"
  by code_simp

lemma ways_spec_destination:
  "map (\<lambda>b. ways_spec roads_input 6 b 0) [0, 1, 2, 3, 4, 5, 6, 7] = [0, 0, 0, 0, 0, 0, 0, 4]"
  by code_simp

text \<open>
  Claim C9, as stated, fails twice. In Split Array Largest Sum the phase tag of the last
  step is \<open>search\<close>, the tag its first step carries too; the phase enum of that file has no
  \<open>complete\<close>. In Sum of Subarray Minimums no init step is pushed: at the default input
  \<open>[3, 1, 2, 4]\<close> the step at index 0 is the subarray \<open>[0...0]\<close> with its minimum 3 already
  added to \<open>totalSum\<close>, which starts at 0.
\<close>

theorem split_terminal_phase_counterexample:
  "map_option (p_phase \<circ> last) (generateSteps_split [7, 2, 5, 10, 8] 2) = Some Split_search \<and>
   map_option (p_phase \<circ> hd) (generateSteps_split [7, 2, 5, 10, 8] 2) = Some Split_search \<and>
   map_option (p_codeLine \<circ> last) (generateSteps_split [7, 2, 5, 10, 8] 2) = Some ''return-res'' \<and>
   map_option (p_res \<circ> last) (generateSteps_split [7, 2, 5, 10, 8] 2) = Some (Fin 18) \<and>
   startIdx (hd (generateSteps_sum [Fin 3, Fin 1, Fin 2, Fin 4])) = 0 \<and>
   endIdx (hd (generateSteps_sum [Fin 3, Fin 1, Fin 2, Fin 4])) = 0 \<and>
   addedVal (hd (generateSteps_sum [Fin 3, Fin 1, Fin 2, Fin 4])) = Fin 3 \<and>
   totalSum (hd (generateSteps_sum [Fin 3, Fin 1, Fin 2, Fin 4])) = Fin 3"
  by code_simp

text \<open>
  Claim C9, amended. In every trace index 0 is the initial state, but in Sum of Subarray
  Minimums, where it is the first subarray \<open>[0...0]\<close> with its minimum added; and the last
  step is the terminal one, which records the final result of the algorithm. In Next
  Greater Element the last step has phase \<open>complete\<close> and \<open>finalAns\<close> is the list of next
  greater elements. In Capacity To Ship Packages it has phase \<open>complete\<close> and \<open>ans\<close> is
  what \<open>shipWithinDays\<close> of the code panel returns, 0 for no weights. In Maximum Product
  Subarray it has phase \<open>complete\<close> and \<open>result\<close> is the one the loop ends with. In Split
  Array Largest Sum it has phase \<open>search\<close> and \<open>codeLine\<close> \<open>return-res\<close>, and for a
  non-empty array \<open>res\<close> is what \<open>splitArray\<close> of the code panel returns. The steps of Sum
  of Subarray Minimums and of Number of Ways have no phase tag: the terminal step is the
  one with \<open>startIdx = -1\<close> and \<open>subarrayStr\<close> \<open>Complete\<close>, holding the total the loops
  end with, and the one described as \<open>Queue is empty. Algorithm Finished.\<close>, holding the
  final \<open>dist\<close> and \<open>ways\<close>: time 7 and 4 ways for the destination.
\<close>

theorem traces_end_with_final_result:
  assumes "ns \<noteq> []"
  shows
    "phase (hd (generateSteps xs)) = Init \<and> codeLine (hd (generateSteps xs)) = ''init'' \<and>
     stack (hd (generateSteps xs)) = [] \<and> rawAns (hd (generateSteps xs)) = [] \<and>
     finalAns (hd (generateSteps xs)) = [] \<and>
     phase (last (generateSteps xs)) = Complete \<and>
     codeLine (last (generateSteps xs)) = ''return'' \<and>
     finalAns (last (generateSteps xs)) = nge_spec xs \<and>
     (\<exists>ss. generateSteps_ship ws d = Some ss \<and>
        s_phase (hd ss) = Search \<and> s_codeLine (hd ss) = ''init'' \<and>
        s_low (hd ss) = Math_min (map Fin ws) \<and> s_high (hd ss) = Fin (sum_list ws) \<and>
        s_ans (hd ss) = Fin 0 \<and>
        s_phase (last ss) = Ship_complete \<and> s_codeLine (last ss) = ''return'' \<and>
        s_ans (last ss) = (if ws = [] then Fin 0 else Fin (shipWithinDays ws d))) \<and>
     (\<exists>ss. generateSteps_mp ns = Some ss \<and>
        m_phase (hd ss) = Mp_init \<and> m_codeLine (hd ss) = ''init'' \<and>
        m_maxSoFar (hd ss) = ns ! 0 \<and> m_minSoFar (hd ss) = ns ! 0 \<and> m_result (hd ss) = ns ! 0 \<and>
        m_phase (last ss) = Mp_complete \<and> m_codeLine (last ss) = ''return'' \<and>
        m_result (last ss) = snd (snd (snd (mp_loop ns 1 (ns ! 0) (ns ! 0) (ns ! 0))))) \<and>
     (\<exists>ss. generateSteps_split zs kk = Some ss \<and>
        p_phase (hd ss) = Split_search \<and> p_codeLine (hd ss) = ''init'' \<and>
        p_mid (hd ss) = Fin (- 1) \<and> p_res (hd ss) = Fin (- 1) \<and>
        p_phase (last ss) = Split_search \<and> p_codeLine (last ss) = ''return-res'' \<and>
        (zs \<noteq> [] \<longrightarrow>
           p_lo (hd ss) = Fin (Max (set zs)) \<and> p_hi (hd ss) = Fin (sum_list zs) \<and>
           p_res (last ss) = Fin (splitArray zs kk))) \<and>
     (vs \<noteq> [] \<longrightarrow>
        startIdx (hd (generateSteps_sum vs)) = 0 \<and> endIdx (hd (generateSteps_sum vs)) = 0 \<and>
        totalSum (hd (generateSteps_sum vs)) = jmod (jadd (Fin 0) (jmin PInf (vs ! 0))) (Fin MOD)) \<and>
     startIdx (last (generateSteps_sum vs)) = - 1 \<and>
     subarrayStr (last (generateSteps_sum vs)) = ''Complete'' \<and>
     totalSum (last (generateSteps_sum vs)) = snd (outer_loop vs 0 (Fin 0)) \<and>
     map_option (g_description \<circ> hd) simulation
       = Some ''Initialize: Start at Node 0 with dist=0, ways=1'' \<and>
     map_option (g_dist \<circ> hd) simulation = Some [Fin 0, PInf, PInf, PInf, PInf, PInf, PInf] \<and>
     map_option (g_ways \<circ> hd) simulation = Some [Fin 1, Fin 0, Fin 0, Fin 0, Fin 0, Fin 0, Fin 0] \<and>
     map_option (g_description \<circ> last) simulation = Some ''Queue is empty. Algorithm Finished.'' \<and>
     map_option (g_dist \<circ> last) simulation = Some [Fin 0, Fin 2, Fin 5, Fin 5, Fin 5, Fin 6, Fin 7] \<and>
     map_option (g_ways \<circ> last) simulation = Some [Fin 1, Fin 1, Fin 1, Fin 1, Fin 1, Fin 2, Fin 4] \<and>
     map (\<lambda>b. ways_spec roads_input 6 b 0) [0, 1, 2, 3, 4, 5, 6, 7] = [0, 0, 0, 0, 0, 0, 0, 4]"
proof -
  have nge: "phase (hd (generateSteps xs)) = Init \<and> codeLine (hd (generateSteps xs)) = ''init'' \<and>
     stack (hd (generateSteps xs)) = [] \<and> rawAns (hd (generateSteps xs)) = [] \<and>
     finalAns (hd (generateSteps xs)) = []"
    using nge_trace_shape [of xs] by (auto simp add: mk_step_def)
  have mp: "\<exists>ss. generateSteps_mp ns = Some ss \<and>
        m_phase (hd ss) = Mp_init \<and> m_codeLine (hd ss) = ''init'' \<and>
        m_maxSoFar (hd ss) = ns ! 0 \<and> m_minSoFar (hd ss) = ns ! 0 \<and> m_result (hd ss) = ns ! 0 \<and>
        m_phase (last ss) = Mp_complete \<and> m_codeLine (last ss) = ''return'' \<and>
        m_result (last ss) = snd (snd (snd (mp_loop ns 1 (ns ! 0) (ns ! 0) (ns ! 0))))"
    using mp_trace_shape [OF assms] by auto
  have sum_first: "vs \<noteq> [] \<longrightarrow>
        startIdx (hd (generateSteps_sum vs)) = 0 \<and> endIdx (hd (generateSteps_sum vs)) = 0 \<and>
        totalSum (hd (generateSteps_sum vs)) = jmod (jadd (Fin 0) (jmin PInf (vs ! 0))) (Fin MOD)"
    using sum_first_step [of vs] by blast
  have sum: "startIdx (last (generateSteps_sum vs)) = - 1 \<and>
     subarrayStr (last (generateSteps_sum vs)) = ''Complete'' \<and>
     totalSum (last (generateSteps_sum vs)) = snd (outer_loop vs 0 (Fin 0))"
    using sum_trace_shape [of vs] by auto
  show ?thesis
    using nge generateSteps_final [of xs] ship_last_step [of ws d] mp split_last_step [of zs kk]
      sum_first sum simulation_first simulation_initial simulation_last simulation_result
      ways_spec_destination
    by blast
qed

theorem traces_end_with_final_result_witness:
  "[Fin 2, Fin 3] \<noteq> [] \<and>
   phase (last (generateSteps [1, 3, 2, 4])) = Complete \<and>
   finalAns (last (generateSteps [1, 3, 2, 4])) = nge_spec [1, 3, 2, 4] \<and>
   (\<exists>ss. generateSteps_ship [3, 2] 1 = Some ss \<and> s_phase (last ss) = Ship_complete \<and>
      s_ans (last ss) = Fin (shipWithinDays [3, 2] 1)) \<and>
   (\<exists>ss. generateSteps_mp [Fin 2, Fin 3] = Some ss \<and> m_phase (last ss) = Mp_complete) \<and>
   (\<exists>ss. generateSteps_split [3, 2] 1 = Some ss \<and> p_phase (last ss) = Split_search \<and>
      p_res (last ss) = Fin (splitArray [3, 2] 1)) \<and>
   startIdx (hd (generateSteps_sum [Fin 3])) = 0 \<and>
   subarrayStr (last (generateSteps_sum [Fin 3])) = ''Complete''"
proof -
  have ne: "[Fin 2, Fin 3] \<noteq> []" by simp
  note inst = traces_end_with_final_result [OF ne, of "[1, 3, 2, 4]" "[3, 2]" 1 "[3, 2]" 1 "[Fin 3]"]
  have nge: "phase (last (generateSteps [1, 3, 2, 4])) = Complete \<and>
      finalAns (last (generateSteps [1, 3, 2, 4])) = nge_spec [1, 3, 2, 4]"
    using inst by blast
  from inst obtain ts where
    "generateSteps_ship [3, 2] 1 = Some ts" "s_phase (last ts) = Ship_complete"
    "s_ans (last ts) = (if [3, 2] = ([] :: int list) then Fin 0 else Fin (shipWithinDays [3, 2] 1))"
    by blast
  then have ship: "\<exists>ss. generateSteps_ship [3, 2] 1 = Some ss \<and> s_phase (last ss) = Ship_complete \<and>
      s_ans (last ss) = Fin (shipWithinDays [3, 2] 1)"
    by simp
  have mp: "\<exists>ss. generateSteps_mp [Fin 2, Fin 3] = Some ss \<and> m_phase (last ss) = Mp_complete"
    using inst by blast
  from inst obtain ps where
    "generateSteps_split [3, 2] 1 = Some ps" "p_phase (last ps) = Split_search"
    "[3, 2] \<noteq> ([] :: int list) \<longrightarrow>
       p_lo (hd ps) = Fin (Max (set [3, 2])) \<and> p_hi (hd ps) = Fin (sum_list [3, 2]) \<and>
       p_res (last ps) = Fin (splitArray [3, 2] 1)"
    by blast
  then have split: "\<exists>ss. generateSteps_split [3, 2] 1 = Some ss \<and> p_phase (last ss) = Split_search \<and>
      p_res (last ss) = Fin (splitArray [3, 2] 1)"
    by simp
  from inst have
    "[Fin 3] \<noteq> [] \<longrightarrow> startIdx (hd (generateSteps_sum [Fin 3])) = 0 \<and>
       endIdx (hd (generateSteps_sum [Fin 3])) = 0 \<and>
       totalSum (hd (generateSteps_sum [Fin 3])) = jmod (jadd (Fin 0) (jmin PInf ([Fin 3] ! 0))) (Fin MOD)"
    "subarrayStr (last (generateSteps_sum [Fin 3])) = ''Complete''"
    by blast+
  then have sum: "startIdx (hd (generateSteps_sum [Fin 3])) = 0 \<and>
      subarrayStr (last (generateSteps_sum [Fin 3])) = ''Complete''"
    by simp
  from ne nge ship mp split sum show ?thesis
    by (intro conjI) (erule conjunct1 conjunct2 | assumption)+
qed

end
